theory Spec2Isabelle
  imports Complex_Main
begin

section \<open>Errors and results\<close>

text \<open>
  The Python exceptions that the modelled code of \<^verbatim>\<open>byte.py\<close> can raise. A computation that
  may raise returns \<open>error + 'a\<close>, with \<open>Inl\<close> for the exception. \<open>ShapeError\<close> stands for
  the runtime error that the tensor library raises on a size mismatch and on a view of a
  tensor that is not contiguous.
\<close>

datatype error =
    AssertionError
  | AttributeError
  | IndexError
  | KeyError
  | NameError
  | OverflowError
  | ShapeError
  | SyntaxError
  | ValueError
  | ZeroDivisionError

definition and_then :: "error + 'a \<Rightarrow> ('a \<Rightarrow> error + 'b) \<Rightarrow> error + 'b" where
  "and_then m f = (case m of Inl e \<Rightarrow> Inl e | Inr v \<Rightarrow> f v)"

section \<open>The dataset loader\<close>

text \<open>The two reserved symbols of \<^verbatim>\<open>UTF8File\<close>.\<close>

definition EOS :: int where
  "EOS = 0"

definition EMPTY :: int where
  "EMPTY = 7"

subsection \<open>From a line of text to a padded byte sequence\<close>

text \<open>
  A line of the file is a Python 2 \<^verbatim>\<open>unicode\<close> string: a list of code points.
  \<^verbatim>\<open>line.strip()\<close> removes the white space at both ends, \<^verbatim>\<open>encode('utf-8')\<close> turns every
  code point into one to four bytes, and \<^verbatim>\<open>ord\<close> reads each byte as an integer.
\<close>

type_synonym unicode = "nat list"

definition isspace :: "nat \<Rightarrow> bool" where
  "isspace c \<longleftrightarrow>
     (9 \<le> c \<and> c \<le> 13) \<or> (28 \<le> c \<and> c \<le> 32) \<or> c = 133 \<or> c = 160 \<or> c = 5760 \<or> c = 6158 \<or>
     (8192 \<le> c \<and> c \<le> 8202) \<or> c = 8232 \<or> c = 8233 \<or> c = 8239 \<or> c = 8287 \<or> c = 12288"

definition strip :: "unicode \<Rightarrow> unicode" where
  "strip s = rev (dropWhile isspace (rev (dropWhile isspace s)))"

definition encode_char :: "nat \<Rightarrow> nat list" where
  "encode_char c =
     (if c < 128 then [c]
      else if c < 2048 then [192 + c div 64, 128 + c mod 64]
      else if c < 65536 then [224 + c div 4096, 128 + c div 64 mod 64, 128 + c mod 64]
      else [240 + c div 262144, 128 + c div 4096 mod 64, 128 + c div 64 mod 64, 128 + c mod 64])"

definition encode_utf8 :: "unicode \<Rightarrow> nat list" where
  "encode_utf8 s = concat (map encode_char s)"

text \<open>
  \<^verbatim>\<open>int(2 ** np.ceil(np.log2(m)))\<close>, the length that a sequence of \<open>m\<close> symbols is padded to.
  The double-precision operations are modelled by the real ones; \<^verbatim>\<open>int\<close> truncates a
  positive number to its floor.
\<close>

definition padded_len :: "nat \<Rightarrow> nat" where
  "padded_len m = nat \<lfloor>2 powr real_of_int \<lceil>log 2 (real m)\<rceil>\<rfloor>"

text \<open>
  The body of the loop over the lines:
  \<^verbatim>\<open>bytes_ = [ord(c) for c in line.strip().encode('utf-8')] + [self.EOS]\<close>, then
  \<^verbatim>\<open>bytes_ += [self.EMPTY] * (int(2 ** np.ceil(np.log2(len(bytes_)))) - len(bytes_))\<close>.
  A list times a negative number is empty, as the subtraction of natural numbers gives.
\<close>

definition content_bytes :: "unicode \<Rightarrow> int list" where
  "content_bytes line = map int (encode_utf8 (strip line))"

definition pad_bytes :: "int list \<Rightarrow> int list" where
  "pad_bytes content =
     (let bytes = content @ [EOS]
      in bytes @ replicate (padded_len (length bytes) - length bytes) EMPTY)"

definition line_bytes :: "unicode \<Rightarrow> int list" where
  "line_bytes line = pad_bytes (content_bytes line)"

subsection \<open>Buckets by length\<close>

text \<open>
  \<^verbatim>\<open>lines_by_len[len(bytes_)].append(bytes_)\<close> on a \<^verbatim>\<open>defaultdict(list)\<close>. A dictionary is
  an association list in the order in which its keys were inserted.
\<close>

type_synonym row = "int list"

type_synonym buckets = "(nat \<times> row list) list"

fun dict_append :: "nat \<Rightarrow> row \<Rightarrow> buckets \<Rightarrow> buckets" where
  "dict_append k v [] = [(k, [v])]"
| "dict_append k v ((k', vs) # d) =
     (if k = k' then (k', vs @ [v]) # d else (k', vs) # dict_append k v d)"

definition lines_by_len :: "unicode list \<Rightarrow> buckets" where
  "lines_by_len file = foldl (\<lambda>d line. dict_append (length (line_bytes line)) (line_bytes line) d) [] file"

text \<open>
  The order in which Python 2 iterates over a dictionary is fixed by the interpreter from
  the keys and the order of their insertion. It is a parameter here: \<open>order\<close> maps the keys
  in insertion order to the keys in iteration order.
\<close>

type_synonym dict_order = "nat list \<Rightarrow> nat list"

definition items :: "dict_order \<Rightarrow> buckets \<Rightarrow> buckets" where
  "items order d = concat (map (\<lambda>k. filter (\<lambda>kv. fst kv = k) d) (order (map fst d)))"

subsection \<open>Random numbers\<close>

text \<open>
  The state of a generator of \<^verbatim>\<open>numpy.random\<close> is the stream of the draws it still has to
  give. \<open>rk_interval m\<close> draws a number between 0 and \<open>m\<close>. \<^verbatim>\<open>shuffle\<close> is the loop of numpy,
  \<^verbatim>\<open>for i in reversed(range(1, n)): j = rk_interval(i, state); x[i], x[j] = x[j], x[i]\<close>,
  and \<^verbatim>\<open>permutation(n)\<close> shuffles \<^verbatim>\<open>arange(n)\<close>.
\<close>

type_synonym rng_state = "nat \<Rightarrow> nat"

definition rk_interval :: "nat \<Rightarrow> rng_state \<Rightarrow> nat \<times> rng_state" where
  "rk_interval m g = (g 0 mod (m + 1), \<lambda>i. g (Suc i))"

fun shuffle_from :: "nat \<Rightarrow> 'a list \<Rightarrow> rng_state \<Rightarrow> 'a list \<times> rng_state" where
  "shuffle_from 0 xs g = (xs, g)"
| "shuffle_from (Suc i) xs g =
     (case rk_interval (Suc i) g of
        (j, g') \<Rightarrow> shuffle_from i (xs[Suc i := xs ! j, j := xs ! Suc i]) g')"

definition shuffle :: "'a list \<Rightarrow> rng_state \<Rightarrow> 'a list \<times> rng_state" where
  "shuffle xs g = shuffle_from (length xs - 1) xs g"

definition permutation :: "nat \<Rightarrow> rng_state \<Rightarrow> nat list \<times> rng_state" where
  "permutation n g = shuffle [0..<n] g"

subsection \<open>The loader object\<close>

text \<open>
  \<^verbatim>\<open>UTF8File.__init__(self, path, cuda, rng=None)\<close>. The file at \<open>path\<close> is given by its
  lines. \<open>RandomState\<close> is the constructor of numpy that turns a seed (or \<open>None\<close>) into the
  state of a generator of its own.
\<close>

record UTF8File =
  cuda :: bool
  rng :: rng_state
  lines :: buckets

definition UTF8File_init ::
    "dict_order \<Rightarrow> (nat option \<Rightarrow> rng_state) \<Rightarrow> unicode list \<Rightarrow> bool \<Rightarrow> nat option \<Rightarrow> UTF8File" where
  "UTF8File_init order RandomState file use_cuda seed =
     \<lparr>cuda = use_cuda, rng = RandomState seed, lines = items order (lines_by_len file)\<rparr>"

subsection \<open>Batches\<close>

text \<open>
  \<^verbatim>\<open>np.array_split(data, k)\<close> cuts \<open>data\<close> into \<open>k\<close> pieces: with \<open>n = q * k + e\<close>, the first
  \<open>e\<close> pieces have \<open>q + 1\<close> rows and the others \<open>q\<close>. \<^verbatim>\<open>np.split\<close> does the same after it has
  checked that the pieces are equal.
\<close>

fun pieces :: "nat list \<Rightarrow> 'a list \<Rightarrow> 'a list list" where
  "pieces [] xs = []"
| "pieces (s # ss) xs = take s xs # pieces ss (drop s xs)"

definition array_split :: "'a list \<Rightarrow> int \<Rightarrow> error + 'a list list" where
  "array_split data k =
     (if k \<le> 0 then Inl ValueError
      else let n = length data; q = n div nat k; e = n mod nat k
           in Inr (pieces (replicate e (q + 1) @ replicate (nat k - e) q) data))"

definition split :: "'a list \<Rightarrow> int \<Rightarrow> error + 'a list list" where
  "split data k =
     (if k = 0 then Inl ZeroDivisionError
      else if int (length data) mod k \<noteq> 0 then Inl ValueError
      else array_split data k)"

text \<open>First error, or all the results.\<close>

fun collect :: "(error + 'a list) list \<Rightarrow> error + 'a list" where
  "collect [] = Inr []"
| "collect (Inl e # rs) = Inl e"
| "collect (Inr xs # rs) = and_then (collect rs) (\<lambda>ys. Inr (xs @ ys))"

text \<open>
  The evaluation branch of \<^verbatim>\<open>iter_epoch\<close>, for one bucket:
  \<^verbatim>\<open>np.array_split(data, max(1, data.shape[0] // bsz))\<close>. The division of Python rounds down,
  as \<open>div\<close> on \<open>int\<close> does, and raises on a zero divisor.
\<close>

definition evaluation_batches :: "int \<Rightarrow> nat \<times> row list \<Rightarrow> error + row list list" where
  "evaluation_batches bsz bucket =
     (if bsz = 0 then Inl ZeroDivisionError
      else array_split (snd bucket) (max 1 (int (length (snd bucket)) div bsz)))"

text \<open>
  The training branch, for one bucket: the batches of indices of the bucket, with the
  state of the global generator after \<^verbatim>\<open>np.random.permutation\<close>.
\<close>

definition training_inds ::
    "int \<Rightarrow> nat \<times> row list \<Rightarrow> rng_state \<Rightarrow> (error + (nat \<times> nat list) list) \<times> rng_state" where
  "training_inds bsz bucket g =
     (if bsz = 0 then (Inl ZeroDivisionError, g)
      else let num_batches = int (length (snd bucket)) div bsz
           in if num_batches = 0 then (Inr [], g)
              else case permutation (length (snd bucket)) g of
                (all_inds, g') \<Rightarrow>
                  (and_then (split (take (nat (bsz * num_batches)) all_inds) num_batches)
                     (\<lambda>bs. Inr (map (\<lambda>inds. (fst bucket, inds)) bs)), g'))"

fun training_batch_inds ::
    "int \<Rightarrow> buckets \<Rightarrow> rng_state \<Rightarrow> (error + (nat \<times> nat list) list) \<times> rng_state" where
  "training_batch_inds bsz [] g = (Inr [], g)"
| "training_batch_inds bsz (bucket # rest) g =
     (case training_inds bsz bucket g of
        (Inl e, g') \<Rightarrow> (Inl e, g')
      | (Inr bs, g') \<Rightarrow>
          (case training_batch_inds bsz rest g' of
             (Inl e, g'') \<Rightarrow> (Inl e, g'')
           | (Inr bs', g'') \<Rightarrow> (Inr (bs @ bs'), g'')))"

text \<open>\<^verbatim>\<open>self.lines[len_][inds]\<close>: the rows of the bucket at the indices.\<close>

definition take_rows :: "buckets \<Rightarrow> nat \<times> nat list \<Rightarrow> error + row list list" where
  "take_rows d b =
     (case map_of d (fst b) of
        None \<Rightarrow> Inl KeyError
      | Some data \<Rightarrow>
          if list_all (\<lambda>i. i < length data) (snd b) then Inr [map (\<lambda>i. data ! i) (snd b)]
          else Inl IndexError)"

text \<open>
  \<^verbatim>\<open>iter_epoch(self, bsz, evaluation=False)\<close>. The generator is given by the list of the
  batches it yields; \<open>g\<close> is the state of the global generator \<^verbatim>\<open>np.random\<close> when the
  iteration starts, and the second component of the result its state afterwards.
  Every exception is raised before the first batch is yielded.
\<close>

definition iter_epoch ::
    "dict_order \<Rightarrow> UTF8File \<Rightarrow> int \<Rightarrow> bool \<Rightarrow> rng_state \<Rightarrow> (error + row list list) \<times> rng_state" where
  "iter_epoch order self bsz evaluation g =
     (if evaluation then
        (collect (map (evaluation_batches bsz) (items order (lines self))), g)
      else
        case training_batch_inds bsz (items order (lines self)) g of
          (Inl e, g') \<Rightarrow> (Inl e, g')
        | (Inr batch_inds, g') \<Rightarrow>
            (case shuffle batch_inds g' of
               (shuffled, g'') \<Rightarrow> (collect (map (take_rows (lines self)) shuffled), g'')))"

section \<open>Tensor shapes and the layers of the network\<close>

text \<open>
  In this section a tensor is abstracted to its shape, the list of its dimension sizes,
  and to whether it is contiguous in memory: the numerical content of a convolution is
  irrelevant to how the sequence length moves through the encoder and the decoder, but
  \<^verbatim>\<open>view\<close> refuses a tensor that is not contiguous. Every layer is a partial function on
  these. The output of a layer is a fresh tensor, which is contiguous; a transposition of
  the last two dimensions of a contiguous tensor is contiguous only if one of the two has
  size one. All convolutions of \<^verbatim>\<open>byte.py\<close> are built with
  \<^verbatim>\<open>kernel_size=3, stride=1, padding=1\<close>, so the output length is \<open>l + 2 * 1 - 3 + 1\<close>.
\<close>

type_synonym shape = "nat list"

type_synonym tensor = "shape \<times> bool"

type_synonym layer = "tensor \<Rightarrow> error + tensor"

definition Conv1d :: "nat \<Rightarrow> nat \<Rightarrow> layer" where
  "Conv1d c_in c_out x =
     (case fst x of
        [bsz, c, l] \<Rightarrow>
          if c = c_in \<and> 3 \<le> l + 2 then Inr ([bsz, c_out, l + 2 - 3 + 1], True)
          else Inl ShapeError
      | _ \<Rightarrow> Inl ShapeError)"

definition Linear :: "nat \<Rightarrow> nat \<Rightarrow> layer" where
  "Linear f_in f_out x =
     (case fst x of
        [bsz, f] \<Rightarrow> if f = f_in then Inr ([bsz, f_out], True) else Inl ShapeError
      | _ \<Rightarrow> Inl ShapeError)"

definition ReLU :: layer where
  "ReLU x = Inr (fst x, True)"

text \<open>\<^verbatim>\<open>nn.MaxPool1d(kernel_size=2)\<close>: the stride defaults to the kernel size.\<close>

definition MaxPool1d :: layer where
  "MaxPool1d x =
     (case fst x of
        [bsz, c, l] \<Rightarrow>
          if 2 \<le> l then Inr ([bsz, c, (l - 2) div 2 + 1], True) else Inl ShapeError
      | _ \<Rightarrow> Inl ShapeError)"

text \<open>
  \<^verbatim>\<open>x.view(d0, d1, ...)\<close> needs a contiguous tensor and keeps the number of elements;
  \<^verbatim>\<open>x.view(bsz, -1)\<close> infers the second size. \<^verbatim>\<open>x.contiguous()\<close> copies where needed.
\<close>

definition view :: "shape \<Rightarrow> layer" where
  "view new x =
     (if snd x \<and> prod_list new = prod_list (fst x) then Inr (new, True) else Inl ShapeError)"

definition view_flat :: "nat \<Rightarrow> layer" where
  "view_flat bsz x =
     (if snd x \<and> 0 < bsz \<and> bsz dvd prod_list (fst x)
      then Inr ([bsz, prod_list (fst x) div bsz], True)
      else Inl ShapeError)"

definition contiguous :: layer where
  "contiguous x = Inr (fst x, True)"

definition transpose_1_2 :: layer where
  "transpose_1_2 x =
     (case fst x of
        [a, b, c] \<Rightarrow> Inr ([a, c, b], snd x \<and> (b = 1 \<or> c = 1))
      | _ \<Rightarrow> Inl IndexError)"

definition transpose_2_3 :: layer where
  "transpose_2_3 x =
     (case fst x of
        [a, b, c, d] \<Rightarrow> Inr ([a, b, d, c], snd x \<and> (c = 1 \<or> d = 1))
      | _ \<Rightarrow> Inl IndexError)"

definition Sequential :: "layer list \<Rightarrow> layer" where
  "Sequential layers x = foldl and_then (Inr x) layers"

text \<open>
  \<^verbatim>\<open>ExpandConv1d.forward\<close>: the convolution, then
  \<^verbatim>\<open>x.view(bsz, c // 2, 2, l).transpose(2, 3).contiguous()\<close> and
  \<^verbatim>\<open>x.view(bsz, c // 2, 2 * l).contiguous()\<close>.
\<close>

definition ExpandConv1d :: "nat \<Rightarrow> nat \<Rightarrow> layer" where
  "ExpandConv1d c_in c_out x =
     and_then (Conv1d c_in c_out x) (\<lambda>x.
       case fst x of
         [bsz, c, l] \<Rightarrow>
           and_then (view [bsz, c div 2, 2, l] x) (\<lambda>x.
           and_then (transpose_2_3 x) (\<lambda>x.
           and_then (contiguous x) (\<lambda>x.
           and_then (view [bsz, c div 2, 2 * l] x) contiguous)))
       | _ \<Rightarrow> Inl ShapeError)"

text \<open>
  \<^verbatim>\<open>Residual.forward\<close>: \<^verbatim>\<open>out += residual\<close> needs \<open>out\<close> and \<open>x\<close> of one shape.
\<close>

definition Residual :: "layer \<Rightarrow> bool \<Rightarrow> layer" where
  "Residual layer_proto out_relu x =
     and_then (layer_proto x) (\<lambda>out.
     and_then (ReLU out) (\<lambda>out.
     and_then (layer_proto out) (\<lambda>out.
       if fst out \<noteq> fst x then Inl ShapeError
       else if out_relu then ReLU out else Inr out)))"

text \<open>\<^verbatim>\<open>[Residual(proto) for _ in xrange(k)]\<close>; \<^verbatim>\<open>xrange\<close> of a negative number is empty.\<close>

definition residual_list :: "layer \<Rightarrow> int \<Rightarrow> layer list" where
  "residual_list proto k = replicate (nat k) (Residual proto True)"

text \<open>\<^verbatim>\<open>for _ in xrange(k): x = self.recurrent(x)\<close>\<close>

fun repeat_layer :: "nat \<Rightarrow> layer \<Rightarrow> layer" where
  "repeat_layer 0 f x = Inr x"
| "repeat_layer (Suc k) f x = and_then (f x) (repeat_layer k f)"

subsection \<open>Double-precision numbers\<close>

text \<open>
  \<^verbatim>\<open>np.log2\<close> computes in double precision. A double holds 53 significant bits: a real number
  \<open>x\<close> with \<open>2 ^ e \<le> \<bar>x\<bar> < 2 ^ (e + 1)\<close> is rounded to the nearest multiple of \<open>2 ^ (e - 52)\<close>,
  a tie going to the even multiple. Overflow and subnormal numbers are left out: the numbers
  rounded here are tensor sizes and their logarithms. \<^verbatim>\<open>np.log2\<close> converts its argument to a
  double and is taken to return the double nearest to the logarithm of that.
\<close>

definition round_half_even :: "real \<Rightarrow> int" where
  "round_half_even y =
     (if frac y = 1 / 2 then (if even \<lfloor>y\<rfloor> then \<lfloor>y\<rfloor> else \<lfloor>y\<rfloor> + 1) else round y)"

definition float64 :: "real \<Rightarrow> real" where
  "float64 x =
     (if x = 0 then 0
      else let e = \<lfloor>log 2 \<bar>x\<bar>\<rfloor>
           in real_of_int (round_half_even (x * 2 powr real_of_int (52 - e)))
              * 2 powr real_of_int (e - 52))"

definition np_log2 :: "nat \<Rightarrow> real" where
  "np_log2 m = float64 (log 2 (float64 (real m)))"

subsection \<open>Encoder\<close>

text \<open>
  A batch of symbols is a tensor of integers: its shape and its elements in row-major order.
  \<^verbatim>\<open>nn.Embedding(num_embeddings, embedding_dim, padding_idx)\<close> refuses a padding index that
  is not the index of one of its rows (the padding index of \<^verbatim>\<open>byte.py\<close> is positive). The
  layer maps a batch of shape \<open>(bsz, l)\<close> to \<open>(bsz, l, embedding_dim)\<close> and refuses a symbol
  outside \<open>0 \<dots> num_embeddings - 1\<close>.
\<close>

type_synonym symbols = "shape \<times> int list"

definition Embedding_forward :: "nat \<Rightarrow> nat \<Rightarrow> symbols \<Rightarrow> error + tensor" where
  "Embedding_forward num_embeddings embedding_dim x =
     (case fst x of
        [bsz, l] \<Rightarrow>
          if list_all (\<lambda>s. 0 \<le> s \<and> s < int num_embeddings) (snd x)
          then Inr ([bsz, l, embedding_dim], True)
          else Inl IndexError
      | _ \<Rightarrow> Inl ShapeError)"

definition Embedding :: "nat \<Rightarrow> nat \<Rightarrow> int \<Rightarrow> error + (symbols \<Rightarrow> error + tensor)" where
  "Embedding num_embeddings embedding_dim padding_idx =
     (if padding_idx < int num_embeddings
      then Inr (Embedding_forward num_embeddings embedding_dim)
      else Inl AssertionError)"

text \<open>
  \<^verbatim>\<open>ByteCNNEncoder.__init__\<close> asserts that \<open>n\<close> is even and builds the embedding, with
  \<^verbatim>\<open>padding_idx=UTF8File.EMPTY\<close>, and the three layer stacks; the module is the record of
  these.
\<close>

record ByteCNNEncoder =
  encoder_embedding :: "symbols \<Rightarrow> error + tensor"
  encoder_prefix :: layer
  encoder_recurrent :: layer
  encoder_postfix :: layer

definition ByteCNNEncoder_init :: "int \<Rightarrow> nat \<Rightarrow> error + ByteCNNEncoder" where
  "ByteCNNEncoder_init n emsize =
     (if n mod 2 \<noteq> 0 then Inl AssertionError
      else let conv_proto = Conv1d emsize emsize;
               linear_proto = Linear (emsize * 4) (emsize * 4)
           in and_then (Embedding emsize emsize EMPTY) (\<lambda>embedding.
                Inr \<lparr>encoder_embedding = embedding,
                     encoder_prefix = Sequential (residual_list conv_proto (n div 2)),
                     encoder_recurrent =
                       Sequential (residual_list conv_proto (n div 2) @ [MaxPool1d]),
                     encoder_postfix =
                       Sequential (residual_list linear_proto (n div 2 - 1)
                                   @ [Residual linear_proto False])\<rparr>))"

definition ByteCNNEncoder_forward :: "ByteCNNEncoder \<Rightarrow> symbols \<Rightarrow> int \<Rightarrow> error + tensor" where
  "ByteCNNEncoder_forward self x r =
     and_then (encoder_embedding self x) (\<lambda>x.
     and_then (transpose_1_2 x) (\<lambda>x.
     and_then (encoder_prefix self x) (\<lambda>x.
     and_then (repeat_layer (nat (r - 2)) (encoder_recurrent self) x) (\<lambda>x.
     and_then (case fst x of [] \<Rightarrow> Inl IndexError | bsz # _ \<Rightarrow> view_flat bsz x) (\<lambda>x.
       encoder_postfix self x)))))"

text \<open>
  \<^verbatim>\<open>num_recurrences\<close>: \<^verbatim>\<open>rfloat = np.log2(x.size(-1)); r = int(rfloat); assert float(r) == rfloat\<close>.
  \<^verbatim>\<open>np.log2(0)\<close> is minus infinity, on which \<^verbatim>\<open>int\<close> raises OverflowError; for a positive size
  the logarithm is not negative, so that the truncation of \<^verbatim>\<open>int\<close> is the floor; \<^verbatim>\<open>float(r)\<close>
  is the double nearest to \<open>r\<close>.
\<close>

definition num_recurrences :: "shape \<Rightarrow> error + int" where
  "num_recurrences x =
     (if x = [] then Inl IndexError
      else if last x = 0 then Inl OverflowError
      else let rfloat = np_log2 (last x); r = \<lfloor>rfloat\<rfloor>
           in if float64 (real_of_int r) = rfloat then Inr r else Inl AssertionError)"

subsection \<open>Decoder\<close>

text \<open>
  \<^verbatim>\<open>ByteCNNDecoder.__init__\<close> makes the same assertion; \<^verbatim>\<open>forward\<close> reads \<^verbatim>\<open>self.emsize\<close>.
\<close>

record ByteCNNDecoder =
  decoder_emsize :: nat
  decoder_prefix :: layer
  decoder_recurrent :: layer
  decoder_postfix :: layer

definition ByteCNNDecoder_init :: "int \<Rightarrow> nat \<Rightarrow> error + ByteCNNDecoder" where
  "ByteCNNDecoder_init n emsize =
     (if n mod 2 \<noteq> 0 then Inl AssertionError
      else let conv_proto = Conv1d emsize emsize;
               expand_proto = ExpandConv1d emsize (emsize * 2);
               linear_proto = Linear (emsize * 4) (emsize * 4)
           in Inr \<lparr>decoder_emsize = emsize,
                   decoder_prefix = Sequential (residual_list linear_proto (n div 2)),
                   decoder_recurrent =
                     Sequential ([expand_proto, ReLU, conv_proto, ReLU]
                                 @ residual_list conv_proto (n div 2 - 1)),
                   decoder_postfix = Sequential (residual_list conv_proto (n div 2))\<rparr>)"

definition ByteCNNDecoder_forward :: "ByteCNNDecoder \<Rightarrow> tensor \<Rightarrow> int \<Rightarrow> error + tensor" where
  "ByteCNNDecoder_forward self x r =
     and_then (decoder_prefix self x) (\<lambda>x.
     and_then (case fst x of [] \<Rightarrow> Inl IndexError
               | bsz # _ \<Rightarrow> view [bsz, decoder_emsize self, 4] x) (\<lambda>x.
     and_then (repeat_layer (nat (r - 2)) (decoder_recurrent self) x) (\<lambda>x.
       decoder_postfix self x)))"

subsection \<open>The autoencoder\<close>

text \<open>
  \<^verbatim>\<open>ByteCNN.__init__\<close> builds the encoder and the decoder. \<^verbatim>\<open>ByteCNN.forward\<close>: the depth from
  the length of the batch, the encoder, the decoder, and \<^verbatim>\<open>nn.LogSoftmax\<close>, which keeps the
  shape.
\<close>

record ByteCNN =
  encoder :: ByteCNNEncoder
  decoder :: ByteCNNDecoder

definition ByteCNN_init :: "int \<Rightarrow> nat \<Rightarrow> error + ByteCNN" where
  "ByteCNN_init n emsize =
     and_then (ByteCNNEncoder_init n emsize) (\<lambda>e.
     and_then (ByteCNNDecoder_init n emsize) (\<lambda>d.
       Inr \<lparr>encoder = e, decoder = d\<rparr>))"

definition ByteCNN_forward :: "ByteCNN \<Rightarrow> symbols \<Rightarrow> error + tensor" where
  "ByteCNN_forward self x =
     and_then (num_recurrences (fst x)) (\<lambda>r.
     and_then (ByteCNNEncoder_forward (encoder self) x r) (\<lambda>x.
     and_then (ByteCNNDecoder_forward (decoder self) x r) (\<lambda>x. Inr (fst x, True))))"

section \<open>The autoencoder: loss, error counts and the passes over the batches\<close>

text \<open>
  A batch \<open>src\<close> is a list of rows of symbols, of shape \<open>(B, L)\<close>. The output \<open>tgt\<close> of the
  decoder is a tensor of shape \<open>(B, C, L)\<close>: for every row a list of \<open>C\<close> channels, each with
  a score per position. Scores are real numbers. The three lines
  \<^verbatim>\<open>r = self.encoder.num_recurrences(src); features = self.encoder(src, r); tgt = self.decoder(features, r)\<close>
  are a parameter \<open>net\<close> of the passes, a function from the batch to the scores that may
  raise: the arithmetic of the convolutions is outside this model.
\<close>

type_synonym batch = "int list list"

type_synonym scores = "real list list list"

type_synonym network = "batch \<Rightarrow> error + scores"

text \<open>
  \<^verbatim>\<open>nn.CrossEntropyLoss(ignore_index=UTF8File.EMPTY)\<close> on an input of \<open>N\<close> rows of scores and
  \<open>N\<close> targets: a row whose target is the ignored index is skipped; every other target
  must be a class; the result is the mean over the rows that were not skipped of
  \<open>ln (\<Sum>c. exp (x c)) - x target\<close>, and zero when every row was skipped.
\<close>

definition CrossEntropyLoss :: "int \<Rightarrow> real list list \<Rightarrow> int list \<Rightarrow> error + real" where
  "CrossEntropyLoss ignore_index input target =
     (if length input \<noteq> length target then Inl ShapeError
      else let kept = filter (\<lambda>xt. snd xt \<noteq> ignore_index) (zip input target)
           in if list_ex (\<lambda>xt. snd xt < 0 \<or> int (length (fst xt)) \<le> snd xt) kept
              then Inl IndexError
              else if kept = [] then Inr 0
              else Inr (sum_list (map (\<lambda>xt. ln (sum_list (map exp (fst xt))) - fst xt ! nat (snd xt)) kept)
                        / real (length kept)))"

definition criterion :: "real list list \<Rightarrow> int list \<Rightarrow> error + real" where
  "criterion = CrossEntropyLoss EMPTY"

text \<open>
  \<^verbatim>\<open>self.criterion(tgt.transpose(1, 2).contiguous().view(-1, tgt.size(1)), src.view(-1))\<close>
\<close>

definition batch_loss :: "scores \<Rightarrow> batch \<Rightarrow> error + real" where
  "batch_loss tgt src = criterion (concat (map transpose tgt)) (concat src)"

text \<open>
  \<^verbatim>\<open>_, predictions = tgt.data.max(dim=1)\<close>: at every position the channel with the greatest
  score, the first one among equals.
\<close>

fun argmax_from :: "real \<Rightarrow> nat \<Rightarrow> nat \<Rightarrow> real list \<Rightarrow> nat" where
  "argmax_from best arg i [] = arg"
| "argmax_from best arg i (x # xs) =
     (if best < x then argmax_from x i (Suc i) xs else argmax_from best arg (Suc i) xs)"

definition argmax :: "real list \<Rightarrow> int" where
  "argmax xs = (case xs of [] \<Rightarrow> 0 | x # rest \<Rightarrow> int (argmax_from x 0 1 rest))"

definition max_dim1 :: "scores \<Rightarrow> int list list" where
  "max_dim1 tgt = map (\<lambda>t. map argmax (transpose t)) tgt"

text \<open>
  \<^verbatim>\<open>mask = (src.data != UTF8File.EMPTY)\<close>, then
  \<^verbatim>\<open>(predictions[mask] != src.data[mask]).sum()\<close> and \<^verbatim>\<open>mask.sum()\<close>. Indexing the predictions
  with the mask needs both of one shape.
\<close>

definition masked :: "int list list \<Rightarrow> batch \<Rightarrow> (int \<times> int) list" where
  "masked predictions src =
     filter (\<lambda>ps. snd ps \<noteq> EMPTY) (zip (concat predictions) (concat src))"

definition wrong :: "int list list \<Rightarrow> batch \<Rightarrow> nat" where
  "wrong predictions src = length (filter (\<lambda>ps. fst ps \<noteq> snd ps) (masked predictions src))"

definition mask_sum :: "batch \<Rightarrow> nat" where
  "mask_sum src = length (filter (\<lambda>s. s \<noteq> EMPTY) (concat src))"

text \<open>
  The forward computation that \<^verbatim>\<open>train_on\<close> and \<^verbatim>\<open>eval_on\<close> share for one batch: the loss,
  the number of wrong predictions and the number of positions outside the padding.
\<close>

definition batch_metrics :: "network \<Rightarrow> batch \<Rightarrow> error + (real \<times> nat \<times> nat)" where
  "batch_metrics net src =
     and_then (net src) (\<lambda>tgt.
     and_then (batch_loss tgt src) (\<lambda>loss.
       let predictions = max_dim1 tgt
       in if map length predictions \<noteq> map length src then Inl ShapeError
          else Inr (loss, wrong predictions src, mask_sum src)))"

subsection \<open>\<^verbatim>\<open>train_on\<close>\<close>

text \<open>
  The parameters of the model change with every batch: \<open>net\<close> takes them as an argument,
  and \<open>step\<close> stands for \<^verbatim>\<open>loss.backward(); optimizer.step()\<close>. The result is the list of the
  losses, the list of the error rates \<^verbatim>\<open>100. * wrong / mask.sum()\<close> and the parameters at the
  end. A float divided by the integer zero raises ZeroDivisionError. The logger, which the
  program always passes, only records the two numbers of every batch and is left out.
\<close>

fun train_on ::
    "('p \<Rightarrow> network) \<Rightarrow> ('p \<Rightarrow> batch \<Rightarrow> 'p) \<Rightarrow> 'p \<Rightarrow> batch list \<Rightarrow> error + (real list \<times> real list \<times> 'p)" where
  "train_on net step params [] = Inr ([], [], params)"
| "train_on net step params (src # rest) =
     and_then (batch_metrics (net params) src) (\<lambda>m.
       case m of (l, n_wrong, n_mask) \<Rightarrow>
         if n_mask = 0 then Inl ZeroDivisionError
         else and_then (train_on net step (step params src) rest) (\<lambda>r.
           case r of (losses, rates, params') \<Rightarrow>
             Inr (l # losses, 100 * real n_wrong / real n_mask # rates, params')))"

subsection \<open>\<^verbatim>\<open>eval_on\<close>\<close>

text \<open>
  \<^verbatim>\<open>total_loss\<close> starts as the integer 0 and is a tensor variable once a loss has been
  added to it.
\<close>

datatype py_total = PyInt int | Variable real

record eval_state =
  errs :: nat
  samples :: nat
  total_loss :: py_total
  batch_cnt :: nat

record metrics =
  loss :: real
  acc :: real

definition add_loss :: "py_total \<Rightarrow> real \<Rightarrow> py_total" where
  "add_loss acc_loss x = (case acc_loss of PyInt i \<Rightarrow> Variable (real_of_int i + x) | Variable t \<Rightarrow> Variable (t + x))"

fun eval_loop :: "network \<Rightarrow> eval_state \<Rightarrow> batch list \<Rightarrow> error + eval_state" where
  "eval_loop net st [] = Inr st"
| "eval_loop net st (src # rest) =
     and_then (batch_metrics net src) (\<lambda>m.
       case m of (l, n_wrong, n_mask) \<Rightarrow>
         eval_loop net
           \<lparr>errs = errs st + n_wrong, samples = samples st + n_mask,
            total_loss = add_loss (total_loss st) l, batch_cnt = batch_cnt st + 1\<rparr> rest)"

text \<open>
  \<^verbatim>\<open>return {'loss': total_loss.data[0]/batch_cnt, 'acc': 100 - 100. * errs / samples}\<close>: the
  first entry is computed first, and reading \<^verbatim>\<open>.data\<close> of an integer raises AttributeError.
\<close>

definition eval_result :: "eval_state \<Rightarrow> error + metrics" where
  "eval_result st =
     (case total_loss st of
        PyInt i \<Rightarrow> Inl AttributeError
      | Variable t \<Rightarrow>
          if batch_cnt st = 0 then Inl ZeroDivisionError
          else if samples st = 0 then Inl ZeroDivisionError
          else Inr \<lparr>loss = t / real (batch_cnt st),
                    acc = 100 - 100 * real (errs st) / real (samples st)\<rparr>)"

definition eval_on :: "network \<Rightarrow> batch list \<Rightarrow> error + metrics" where
  "eval_on net batch_iterator =
     and_then (eval_loop net \<lparr>errs = 0, samples = 0, total_loss = PyInt 0, batch_cnt = 0\<rparr> batch_iterator)
       eval_result"

subsection \<open>\<^verbatim>\<open>try_on\<close>\<close>

text \<open>
  \<^verbatim>\<open>chr(c)\<close> raises ValueError outside \<open>range(256)\<close>. \<^verbatim>\<open>repr\<close> of a Python 2 byte string puts it
  in single quotes (in double quotes when it holds a single quote and no double quote) and
  escapes the quote, the backslash, tab, line feed, carriage return and, as \<^verbatim>\<open>\xhh\<close>, every
  byte below the space or from 127 on.
\<close>

definition chr :: "int \<Rightarrow> error + char" where
  "chr c = (if 0 \<le> c \<and> c < 256 then Inr (char_of c) else Inl ValueError)"

fun chr_all :: "int list \<Rightarrow> error + string" where
  "chr_all [] = Inr []"
| "chr_all (c # cs) = and_then (chr c) (\<lambda>x. and_then (chr_all cs) (\<lambda>xs. Inr (x # xs)))"

definition hex_digit :: "nat \<Rightarrow> char" where
  "hex_digit d = ''0123456789abcdef'' ! d"

definition repr_char :: "char \<Rightarrow> char \<Rightarrow> string" where
  "repr_char quote c =
     (if c = quote \<or> c = CHR 0x5C then [CHR 0x5C, c]
      else if c = CHR 0x09 then [CHR 0x5C, CHR ''t'']
      else if c = CHR 0x0A then [CHR 0x5C, CHR ''n'']
      else if c = CHR 0x0D then [CHR 0x5C, CHR ''r'']
      else if of_char c < (32::nat) \<or> (127::nat) \<le> of_char c
        then [CHR 0x5C, CHR ''x'', hex_digit (of_char c div 16), hex_digit (of_char c mod 16)]
      else [c])"

definition repr :: "string \<Rightarrow> string" where
  "repr s =
     (let quote = (if CHR 0x27 \<in> set s \<and> CHR 0x22 \<notin> set s then CHR 0x22 else CHR 0x27)
      in [quote] @ concat (map (repr_char quote) s) @ [quote])"

text \<open>
  The body of the inner loop of \<^verbatim>\<open>try_on\<close>:
  \<^verbatim>\<open>pred = pred[:pred.index(UTF8File.EOS)] if UTF8File.EOS in pred else pred\<close> and
  \<^verbatim>\<open>pred = repr(''.join([chr(c) for c in pred]))\<close>.
\<close>

definition index :: "int list \<Rightarrow> int \<Rightarrow> nat" where
  "index pred v = length (takeWhile (\<lambda>c. c \<noteq> v) pred)"

definition render :: "int list \<Rightarrow> error + string" where
  "render pred =
     (let pred = (if EOS \<in> set pred then take (index pred EOS) pred else pred)
      in and_then (chr_all pred) (\<lambda>s. Inr (repr s)))"

fun render_all :: "int list list \<Rightarrow> error + string list" where
  "render_all [] = Inr []"
| "render_all (pred # preds) =
     and_then (render pred) (\<lambda>s. and_then (render_all preds) (\<lambda>ss. Inr (s # ss)))"

fun try_on :: "network \<Rightarrow> batch list \<Rightarrow> error + string list" where
  "try_on net [] = Inr []"
| "try_on net (src # rest) =
     and_then (net src) (\<lambda>tgt.
     and_then (render_all (max_dim1 tgt)) (\<lambda>decoded.
     and_then (try_on net rest) (\<lambda>more. Inr (decoded @ more))))"

section \<open>The loss and the counts of a batch, position by position\<close>

text \<open>
  What the specification says of the loss and of the error rate of one batch, written out
  over the positions of the batch. These definitions are not taken from \<^verbatim>\<open>byte.py\<close>: the
  theorems compare them with \<open>batch_metrics\<close>, \<^verbatim>\<open>train_on\<close> and \<^verbatim>\<open>eval_on\<close>. The scores and the
  targets are flattened as \<open>batch_loss\<close> flattens them; position \<open>i\<close> has the scores
  \<open>input ! i\<close>, one per class, and the target \<open>target ! i\<close>.

  The positions whose target is not PAD:
\<close>

definition spec_non_pad :: "int list \<Rightarrow> nat list" where
  "spec_non_pad target = filter (\<lambda>i. target ! i \<noteq> EMPTY) [0..<length target]"

text \<open>The cross-entropy of one position: minus the logarithm of the softmax at the target.\<close>

definition spec_cross_entropy :: "real list \<Rightarrow> int \<Rightarrow> real" where
  "spec_cross_entropy x t = ln (sum_list (map exp x)) - x ! nat t"

text \<open>The loss: the mean of the cross-entropy over the positions whose target is not PAD.\<close>

definition spec_loss :: "real list list \<Rightarrow> int list \<Rightarrow> real" where
  "spec_loss input target =
     (if spec_non_pad target = [] then 0
      else sum_list (map (\<lambda>i. spec_cross_entropy (input ! i) (target ! i)) (spec_non_pad target))
           / real (length (spec_non_pad target)))"

text \<open>The errors: the positions whose target is not PAD and is not the predicted byte.\<close>

definition spec_errors :: "real list list \<Rightarrow> int list \<Rightarrow> nat" where
  "spec_errors input target =
     length (filter (\<lambda>i. argmax (input ! i) \<noteq> target ! i) (spec_non_pad target))"

definition spec_batch_loss :: "scores \<Rightarrow> batch \<Rightarrow> real" where
  "spec_batch_loss tgt src = spec_loss (concat (map transpose tgt)) (concat src)"

definition spec_batch_errors :: "scores \<Rightarrow> batch \<Rightarrow> nat" where
  "spec_batch_errors tgt src = spec_errors (concat (map transpose tgt)) (concat src)"

definition spec_batch_positions :: "batch \<Rightarrow> nat" where
  "spec_batch_positions src = length (spec_non_pad (concat src))"

text \<open>
  The scores fit the batch when they have a list of scores for every position of every row
  and every target that is not PAD is one of the classes that are scored.
\<close>

definition fits :: "scores \<Rightarrow> batch \<Rightarrow> bool" where
  "fits tgt src \<longleftrightarrow>
     map (\<lambda>t. length (transpose t)) tgt = map length src \<and>
     list_all (\<lambda>i. 0 \<le> concat src ! i
                    \<and> concat src ! i < int (length (concat (map transpose tgt) ! i)))
       (spec_non_pad (concat src))"

section \<open>Loading a saved model\<close>

text \<open>
  The descriptor file \<^verbatim>\<open>model.info\<close> is given by its lines. A Python dictionary from strings
  to strings is an association list with one pair per key; \<open>p\<close> is a \<^verbatim>\<open>defaultdict(str)\<close>,
  so that reading a key that is missing stores the empty string under it and returns it.
\<close>

type_synonym py_dict = "(string \<times> string) list"

definition isspace_byte :: "char \<Rightarrow> bool" where
  "isspace_byte c \<longleftrightarrow> c \<in> set [CHR 0x20, CHR 0x09, CHR 0x0A, CHR 0x0B, CHR 0x0C, CHR 0x0D]"

definition strip_str :: "string \<Rightarrow> string" where
  "strip_str s = rev (dropWhile isspace_byte (rev (dropWhile isspace_byte s)))"

text \<open>\<^verbatim>\<open>line.split('=', 1)\<close>: two parts around the first equals sign, or the line alone.\<close>

definition split_once :: "string \<Rightarrow> string list" where
  "split_once s =
     (if CHR ''='' \<in> set s
      then [takeWhile (\<lambda>c. c \<noteq> CHR ''='') s, tl (dropWhile (\<lambda>c. c \<noteq> CHR ''='') s)]
      else [s])"

definition setitem :: "string \<Rightarrow> string \<Rightarrow> py_dict \<Rightarrow> py_dict" where
  "setitem k v d =
     (if k \<in> fst ` set d then map (\<lambda>kv. if fst kv = k then (k, v) else kv) d else d @ [(k, v)])"

text \<open>
  \<^verbatim>\<open>p.update(dict(...))\<close>: \<^verbatim>\<open>dict\<close> raises ValueError on an element that is not a pair.
\<close>

fun dict_update :: "py_dict \<Rightarrow> string list list \<Rightarrow> error + py_dict" where
  "dict_update d [] = Inr d"
| "dict_update d (kv # rest) =
     (case kv of [k, v] \<Rightarrow> dict_update (setitem k v d) rest | _ \<Rightarrow> Inl ValueError)"

definition getitem :: "string \<Rightarrow> py_dict \<Rightarrow> string \<times> py_dict" where
  "getitem k p = (case map_of p k of Some v \<Rightarrow> (v, p) | None \<Rightarrow> ('''', p @ [(k, '''')]))"

definition delitem :: "string \<Rightarrow> py_dict \<Rightarrow> error + py_dict" where
  "delitem k p =
     (if k \<in> fst ` set p then Inr (filter (\<lambda>kv. fst kv \<noteq> k) p) else Inl KeyError)"

text \<open>
  \<^verbatim>\<open>ByteCNN.load_model(path)\<close>. The parameters stand for what lies outside the function:
  \<open>os_bound\<close> says whether the name \<^verbatim>\<open>os\<close> is bound in the module (\<^verbatim>\<open>byte.py\<close> has no
  \<^verbatim>\<open>import os\<close>, and \<^verbatim>\<open>os.path.join\<close> is the first thing the function evaluates);
  \<open>eval_class\<close> and \<open>eval_kwargs\<close> are the two calls of \<^verbatim>\<open>eval\<close>; \<open>instantiate\<close> is the call
  \<^verbatim>\<open>model_class(**model_kwargs)\<close>, and \<open>load_state_dict\<close> reads \<^verbatim>\<open>model.pt\<close> into the model.
\<close>

definition load_model ::
    "bool \<Rightarrow> (string \<Rightarrow> error + 'c) \<Rightarrow> (string \<Rightarrow> error + 'k) \<Rightarrow> ('c \<Rightarrow> 'k \<Rightarrow> error + 'm) \<Rightarrow>
     ('m \<Rightarrow> error + 'm) \<Rightarrow> string list \<Rightarrow> error + 'm" where
  "load_model os_bound eval_class eval_kwargs instantiate load_state_dict model_info =
     (if \<not> os_bound then Inl NameError
      else
        and_then (dict_update [] (map (\<lambda>line. split_once (strip_str line)) model_info)) (\<lambda>p.
        case getitem ''model_class'' p of (name, p) \<Rightarrow>
        and_then (eval_class name) (\<lambda>model_class.
        and_then (delitem ''model_class'' p) (\<lambda>p.
        case getitem ''model_kwargs'' p of (kwargs, p) \<Rightarrow>
        and_then (eval_kwargs (''dict('' @ kwargs @ '')'')) (\<lambda>model_kwargs.
        and_then (delitem ''model_kwargs'' p) (\<lambda>p.
          if length p > 0 then Inl ValueError
          else case getitem ''model_class'' p of (name', p) \<Rightarrow>
            if name' \<noteq> ''ByteCNN'' then Inl AssertionError
            else and_then (instantiate model_class model_kwargs) load_state_dict))))))"

section \<open>Basic lemmas\<close>

lemma and_then_Inr [simp]: "and_then (Inr v) f = f v"
  by (simp add: and_then_def)

lemma and_then_Inl [simp]: "and_then (Inl e) f = Inl e"
  by (simp add: and_then_def)

lemma foldl_and_then_Inl: "foldl and_then (Inl e) fs = Inl e"
  by (induction fs) simp_all

section \<open>Sequence length through the encoder and the decoder\<close>

lemma Sequential_Nil [simp]: "Sequential [] x = Inr x"
  by (simp add: Sequential_def)

lemma Sequential_Cons: "Sequential (f # fs) x = and_then (f x) (Sequential fs)"
proof (cases "f x")
  case (Inl e)
  then show ?thesis by (simp add: Sequential_def foldl_and_then_Inl)
next
  case (Inr y)
  then show ?thesis by (simp add: Sequential_def)
qed

lemma Sequential_append:
  "Sequential (fs @ gs) x = and_then (Sequential fs x) (Sequential gs)"
proof (induction fs arbitrary: x)
  case Nil
  then show ?case by simp
next
  case (Cons f fs)
  show ?case
    by (cases "f x") (simp_all add: Sequential_Cons Cons.IH)
qed

lemma Sequential_replicate_settles:
  assumes "f x = Inr y" and "f y = Inr y"
  shows "Sequential (replicate k f) x = Inr (if k = 0 then x else y)"
proof (cases k)
  case 0
  then show ?thesis by simp
next
  case (Suc m)
  have "Sequential (replicate m f) y = Inr y"
    by (induction m) (simp_all add: Sequential_Cons assms(2))
  then show ?thesis
    by (simp add: Suc Sequential_Cons assms(1))
qed

lemma Residual_Conv1d:
  "0 < l \<Longrightarrow> Residual (Conv1d c c) b ([bsz, c, l], f) = Inr ([bsz, c, l], True)"
  by (simp add: Residual_def Conv1d_def ReLU_def)

lemma Residual_Linear:
  "Residual (Linear m m) b ([bsz, m], f) = Inr ([bsz, m], True)"
  by (simp add: Residual_def Linear_def ReLU_def)

lemma conv_stack:
  "0 < l \<Longrightarrow>
     Sequential (residual_list (Conv1d c c) k) ([bsz, c, l], f) = Inr ([bsz, c, l], f \<or> 0 < k)"
  by (simp add: residual_list_def Residual_Conv1d
      Sequential_replicate_settles [where y = "([bsz, c, l], True)"])

lemma linear_stack:
  "Sequential (residual_list (Linear m m) k) ([bsz, m], f) = Inr ([bsz, m], f \<or> 0 < k)"
  by (simp add: residual_list_def Residual_Linear
      Sequential_replicate_settles [where y = "([bsz, m], True)"])

lemma Sequential_replicate_fails:
  assumes "f x = Inl e" and "0 < k"
  shows "Sequential (replicate k f) x = Inl e"
proof (cases k)
  case 0
  with assms(2) show ?thesis by simp
next
  case (Suc m)
  then show ?thesis by (simp add: Sequential_Cons assms(1))
qed

lemma conv_stack_empty:
  "Sequential (residual_list (Conv1d c c) k @ layers) ([bsz, c, 0], f) = Inl ShapeError"
  if "\<And>x. fst x = [bsz, c, 0] \<Longrightarrow> Sequential layers x = Inl ShapeError"
proof (cases "0 < nat k")
  case True
  have "Residual (Conv1d c c) True ([bsz, c, 0], f) = Inl ShapeError"
    by (simp add: Residual_def Conv1d_def)
  then have "Sequential (replicate (nat k) (Residual (Conv1d c c) True)) ([bsz, c, 0], f)
             = Inl ShapeError"
    using True by (rule Sequential_replicate_fails)
  then show ?thesis by (simp add: Sequential_append residual_list_def)
next
  case False
  then show ?thesis by (simp add: Sequential_append residual_list_def that)
qed

subsection \<open>The recurrent stages\<close>

text \<open>One application of the recurrent stage of the encoder halves the length.\<close>

lemma encoder_stage:
  "Sequential (residual_list (Conv1d c c) k @ [MaxPool1d]) ([bsz, c, l], f)
   = (if 2 \<le> l then Inr ([bsz, c, l div 2], True) else Inl ShapeError)"
proof (cases "l = 0")
  case True
  have "Sequential (residual_list (Conv1d c c) k @ [MaxPool1d]) ([bsz, c, 0], f) = Inl ShapeError"
    by (rule conv_stack_empty) (simp add: Sequential_Cons MaxPool1d_def)
  with True show ?thesis by simp
next
  case False
  then have "0 < l" by simp
  moreover have "2 \<le> l \<Longrightarrow> Suc ((l - 2) div 2) = l div 2"
    by (simp add: le_div_geq)
  ultimately show ?thesis
    by (simp add: Sequential_append conv_stack Sequential_Cons MaxPool1d_def)
qed

text \<open>One application of the recurrent stage of the decoder doubles the length.\<close>

lemma decoder_stage:
  "Sequential (ExpandConv1d c (c * 2) # ReLU # Conv1d c c # ReLU # residual_list (Conv1d c c) k)
     ([bsz, c, l], f)
   = (if 0 < l then Inr ([bsz, c, 2 * l], True) else Inl ShapeError)"
  by (simp add: Sequential_Cons Sequential_append conv_stack
      ExpandConv1d_def Conv1d_def view_def ReLU_def transpose_2_3_def contiguous_def)

text \<open>
  \<open>k\<close> applications in the encoder: the length is halved \<open>k\<close> times, rounding down, and
  no application is given a length below 2.
\<close>

lemma encoder_stages:
  "repeat_layer k (Sequential (residual_list (Conv1d c c) j @ [MaxPool1d])) ([bsz, c, l], f)
   = (if k = 0 then Inr ([bsz, c, l], f)
      else if 2 ^ k \<le> l then Inr ([bsz, c, l div 2 ^ k], True)
      else Inl ShapeError)"
proof (induction k arbitrary: l f)
  case 0
  then show ?case by simp
next
  case (Suc k)
  show ?case
  proof (cases "2 \<le> l")
    case True
    have le: "2 ^ k \<le> l div 2 \<longleftrightarrow> 2 * 2 ^ k \<le> l"
      by (simp add: less_eq_div_iff_mult_less_eq mult.commute)
    have dv: "l div 2 div 2 ^ k = l div (2 * 2 ^ k)"
      by (simp add: div_mult2_eq)
    show ?thesis
      using True by (simp add: encoder_stage Suc.IH le dv)
  next
    case False
    have "(2::nat) * 1 \<le> 2 * 2 ^ k"
      by (intro mult_le_mono2) simp
    with False have "\<not> 2 * 2 ^ k \<le> l" by linarith
    with False show ?thesis by (simp add: encoder_stage)
  qed
qed

lemma decoder_stages:
  "0 < l \<Longrightarrow>
     repeat_layer k (Sequential (ExpandConv1d c (c * 2) # ReLU # Conv1d c c # ReLU
                                 # residual_list (Conv1d c c) j)) ([bsz, c, l], f)
     = Inr ([bsz, c, l * 2 ^ k], f \<or> 0 < k)"
proof (induction k arbitrary: l f)
  case 0
  then show ?case by simp
next
  case (Suc k)
  from Suc.prems have "0 < 2 * l" by simp
  then show ?case
    using Suc.prems Suc.IH [of "2 * l" True] by (simp add: decoder_stage mult.assoc)
qed

lemma linear_postfix:
  "Sequential (residual_list (Linear m m) k @ [Residual (Linear m m) False]) ([bsz, j], f)
   = (if j = m then Inr ([bsz, m], True) else Inl ShapeError)"
proof (cases "j = m")
  case True
  then show ?thesis
    by (simp add: Sequential_append linear_stack Sequential_Cons Residual_Linear)
next
  case False
  have r: "Residual (Linear m m) b ([bsz, j], f) = Inl ShapeError" for b
    using False by (simp add: Residual_def Linear_def)
  show ?thesis
  proof (cases "0 < nat k")
    case True
    then have "Sequential (replicate (nat k) (Residual (Linear m m) True)) ([bsz, j], f)
               = Inl ShapeError"
      by (intro Sequential_replicate_fails r)
    with False show ?thesis by (simp add: Sequential_append residual_list_def)
  next
    case False
    with \<open>j \<noteq> m\<close> show ?thesis
      by (simp add: Sequential_append residual_list_def Sequential_Cons r)
  qed
qed

subsection \<open>The modules\<close>

lemma ByteCNN_init_odd: "n mod 2 \<noteq> 0 \<Longrightarrow> ByteCNN_init n emsize = Inl AssertionError"
  by (simp add: ByteCNN_init_def ByteCNNEncoder_init_def)

lemma ByteCNN_init_small:
  "int emsize \<le> EMPTY \<Longrightarrow> ByteCNN_init n emsize = Inl AssertionError"
  by (simp add: ByteCNN_init_def ByteCNNEncoder_init_def Embedding_def Let_def)

lemma ByteCNN_init_even:
  assumes "ByteCNN_init n emsize = Inr m"
  shows "n mod 2 = 0" and "EMPTY < int emsize"
proof -
  show "n mod 2 = 0"
  proof (rule ccontr)
    assume "n mod 2 \<noteq> 0"
    then have "ByteCNN_init n emsize = Inl AssertionError" by (rule ByteCNN_init_odd)
    with assms show False by simp
  qed
  show "EMPTY < int emsize"
  proof (rule ccontr)
    assume "\<not> EMPTY < int emsize"
    then have "int emsize \<le> EMPTY" by simp
    then have "ByteCNN_init n emsize = Inl AssertionError" by (rule ByteCNN_init_small)
    with assms show False by simp
  qed
qed

lemma ByteCNN_init_modules:
  assumes "ByteCNN_init n emsize = Inr m"
  shows "encoder m =
           \<lparr>encoder_embedding = Embedding_forward emsize emsize,
            encoder_prefix = Sequential (residual_list (Conv1d emsize emsize) (n div 2)),
            encoder_recurrent =
              Sequential (residual_list (Conv1d emsize emsize) (n div 2) @ [MaxPool1d]),
            encoder_postfix =
              Sequential (residual_list (Linear (emsize * 4) (emsize * 4)) (n div 2 - 1)
                          @ [Residual (Linear (emsize * 4) (emsize * 4)) False])\<rparr>"
    and "decoder m =
           \<lparr>decoder_emsize = emsize,
            decoder_prefix =
              Sequential (residual_list (Linear (emsize * 4) (emsize * 4)) (n div 2)),
            decoder_recurrent =
              Sequential (ExpandConv1d emsize (emsize * 2) # ReLU # Conv1d emsize emsize # ReLU
                          # residual_list (Conv1d emsize emsize) (n div 2 - 1)),
            decoder_postfix = Sequential (residual_list (Conv1d emsize emsize) (n div 2))\<rparr>"
proof -
  have "n mod 2 = 0" and "EMPTY < int emsize"
    using assms by (rule ByteCNN_init_even)+
  then have "ByteCNN_init n emsize =
      Inr \<lparr>encoder =
           \<lparr>encoder_embedding = Embedding_forward emsize emsize,
            encoder_prefix = Sequential (residual_list (Conv1d emsize emsize) (n div 2)),
            encoder_recurrent =
              Sequential (residual_list (Conv1d emsize emsize) (n div 2) @ [MaxPool1d]),
            encoder_postfix =
              Sequential (residual_list (Linear (emsize * 4) (emsize * 4)) (n div 2 - 1)
                          @ [Residual (Linear (emsize * 4) (emsize * 4)) False])\<rparr>,
          decoder =
           \<lparr>decoder_emsize = emsize,
            decoder_prefix =
              Sequential (residual_list (Linear (emsize * 4) (emsize * 4)) (n div 2)),
            decoder_recurrent =
              Sequential (ExpandConv1d emsize (emsize * 2) # ReLU # Conv1d emsize emsize # ReLU
                          # residual_list (Conv1d emsize emsize) (n div 2 - 1)),
            decoder_postfix = Sequential (residual_list (Conv1d emsize emsize) (n div 2))\<rparr>\<rparr>"
    by (simp add: ByteCNN_init_def ByteCNNEncoder_init_def ByteCNNDecoder_init_def Let_def
        Embedding_def)
  with assms have "m = \<lparr>encoder =
           \<lparr>encoder_embedding = Embedding_forward emsize emsize,
            encoder_prefix = Sequential (residual_list (Conv1d emsize emsize) (n div 2)),
            encoder_recurrent =
              Sequential (residual_list (Conv1d emsize emsize) (n div 2) @ [MaxPool1d]),
            encoder_postfix =
              Sequential (residual_list (Linear (emsize * 4) (emsize * 4)) (n div 2 - 1)
                          @ [Residual (Linear (emsize * 4) (emsize * 4)) False])\<rparr>,
          decoder =
           \<lparr>decoder_emsize = emsize,
            decoder_prefix =
              Sequential (residual_list (Linear (emsize * 4) (emsize * 4)) (n div 2)),
            decoder_recurrent =
              Sequential (ExpandConv1d emsize (emsize * 2) # ReLU # Conv1d emsize emsize # ReLU
                          # residual_list (Conv1d emsize emsize) (n div 2 - 1)),
            decoder_postfix = Sequential (residual_list (Conv1d emsize emsize) (n div 2))\<rparr>\<rparr>"
    by simp
  then show "encoder m =
           \<lparr>encoder_embedding = Embedding_forward emsize emsize,
            encoder_prefix = Sequential (residual_list (Conv1d emsize emsize) (n div 2)),
            encoder_recurrent =
              Sequential (residual_list (Conv1d emsize emsize) (n div 2) @ [MaxPool1d]),
            encoder_postfix =
              Sequential (residual_list (Linear (emsize * 4) (emsize * 4)) (n div 2 - 1)
                          @ [Residual (Linear (emsize * 4) (emsize * 4)) False])\<rparr>"
    and "decoder m =
           \<lparr>decoder_emsize = emsize,
            decoder_prefix =
              Sequential (residual_list (Linear (emsize * 4) (emsize * 4)) (n div 2)),
            decoder_recurrent =
              Sequential (ExpandConv1d emsize (emsize * 2) # ReLU # Conv1d emsize emsize # ReLU
                          # residual_list (Conv1d emsize emsize) (n div 2 - 1)),
            decoder_postfix = Sequential (residual_list (Conv1d emsize emsize) (n div 2))\<rparr>"
    by simp_all
qed

lemma ByteCNN_init_encoder:
  assumes "ByteCNN_init n emsize = Inr m"
  shows "encoder_embedding (encoder m) = Embedding_forward emsize emsize"
    and "encoder_prefix (encoder m) = Sequential (residual_list (Conv1d emsize emsize) (n div 2))"
    and "encoder_recurrent (encoder m)
         = Sequential (residual_list (Conv1d emsize emsize) (n div 2) @ [MaxPool1d])"
    and "encoder_postfix (encoder m)
         = Sequential (residual_list (Linear (emsize * 4) (emsize * 4)) (n div 2 - 1)
                       @ [Residual (Linear (emsize * 4) (emsize * 4)) False])"
  by (simp_all add: ByteCNN_init_modules(1) [OF assms])

lemma ByteCNN_init_decoder:
  assumes "ByteCNN_init n emsize = Inr m"
  shows "decoder_emsize (decoder m) = emsize"
    and "decoder_prefix (decoder m)
         = Sequential (residual_list (Linear (emsize * 4) (emsize * 4)) (n div 2))"
    and "decoder_recurrent (decoder m)
         = Sequential (ExpandConv1d emsize (emsize * 2) # ReLU # Conv1d emsize emsize # ReLU
                       # residual_list (Conv1d emsize emsize) (n div 2 - 1))"
    and "decoder_postfix (decoder m) = Sequential (residual_list (Conv1d emsize emsize) (n div 2))"
  by (simp_all add: ByteCNN_init_modules(2) [OF assms])

text \<open>
  The encoder of a constructed model, run to any depth \<open>r\<close> on a batch of any positive
  length \<open>l\<close>: the prefix, \<open>r - 2\<close> halvings, then \<^verbatim>\<open>view\<close>, which needs a contiguous tensor,
  and the linear layers, which need \<open>emsize * 4\<close> features.
\<close>

lemma encoder_any_depth:
  assumes init: "ByteCNN_init n emsize = Inr m"
    and "0 < bsz" and "0 < l" and "0 < emsize"
    and "list_all (\<lambda>s. 0 \<le> s \<and> s < int emsize) xs"
  shows "ByteCNNEncoder_forward (encoder m) ([bsz, l], xs) r
         = (if nat (r - 2) = 0
            then if (l = 1 \<or> emsize = 1 \<or> 0 < n div 2) \<and> l = 4
                 then Inr ([bsz, emsize * 4], True) else Inl ShapeError
            else if 2 ^ nat (r - 2) \<le> l \<and> l div 2 ^ nat (r - 2) = 4
                 then Inr ([bsz, emsize * 4], True) else Inl ShapeError)"
proof -
  define k where "k = nat (r - 2)"
  have emb: "Embedding_forward emsize emsize ([bsz, l], xs) = Inr ([bsz, l, emsize], True)"
    using assms(5) by (simp add: Embedding_forward_def)
  have pre: "Sequential (residual_list (Conv1d emsize emsize) (n div 2)) ([bsz, emsize, l], f)
             = Inr ([bsz, emsize, l], f \<or> 0 < n div 2)" for f
    using assms(3) by (simp add: conv_stack)
  have flat: "view_flat bsz ([bsz, emsize, j], f)
              = (if f then Inr ([bsz, emsize * j], True) else Inl ShapeError)" for j f
    using assms(2) by (simp add: view_flat_def)
  show ?thesis
  proof (cases "k = 0")
    case True
    then show ?thesis
      using assms(4)
      unfolding ByteCNNEncoder_forward_def ByteCNN_init_encoder [OF init] k_def [symmetric]
      by (simp add: emb transpose_1_2_def pre flat linear_postfix)
  next
    case False
    then show ?thesis
      using assms(4)
      unfolding ByteCNNEncoder_forward_def ByteCNN_init_encoder [OF init] k_def [symmetric]
      by (simp add: emb transpose_1_2_def pre encoder_stages flat linear_postfix)
  qed
qed

text \<open>The decoder of a constructed model, run to any depth on a latent batch.\<close>

lemma decoder_any_depth:
  assumes init: "ByteCNN_init n emsize = Inr m"
  shows "ByteCNNDecoder_forward (decoder m) ([bsz, emsize * 4], True) r
         = Inr ([bsz, emsize, 4 * 2 ^ nat (r - 2)], True)"
proof -
  define k where "k = nat (r - 2)"
  have pre: "Sequential (residual_list (Linear (emsize * 4) (emsize * 4)) (n div 2))
               ([bsz, emsize * 4], True) = Inr ([bsz, emsize * 4], True)"
    by (simp add: linear_stack)
  have rec: "repeat_layer k (Sequential (ExpandConv1d emsize (emsize * 2) # ReLU #
                 Conv1d emsize emsize # ReLU # residual_list (Conv1d emsize emsize) (n div 2 - 1)))
               ([bsz, emsize, 4], True) = Inr ([bsz, emsize, 4 * 2 ^ k], True)"
    using decoder_stages [of 4 k emsize "n div 2 - 1" bsz True] by simp
  have post: "Sequential (residual_list (Conv1d emsize emsize) (n div 2))
                ([bsz, emsize, 4 * 2 ^ k], True) = Inr ([bsz, emsize, 4 * 2 ^ k], True)"
    by (simp add: conv_stack)
  show ?thesis
    unfolding ByteCNNDecoder_forward_def ByteCNN_init_decoder [OF init] k_def [symmetric]
    by (simp add: pre view_def rec post)
qed

subsection \<open>The round trip\<close>

lemma halvings_reach_four:
  assumes "2 \<le> R"
  shows "((2::nat) ^ k \<le> 2 ^ R \<and> (2::nat) ^ R div 2 ^ k = 4) \<longleftrightarrow> k = R - 2"
proof
  assume h: "(2::nat) ^ k \<le> 2 ^ R \<and> (2::nat) ^ R div 2 ^ k = 4"
  then have kR: "k \<le> R" by simp
  then have "(2::nat) ^ R div 2 ^ k = 2 ^ (R - k)" by (simp add: power_diff)
  with h have "(2::nat) ^ (R - k) = 2 ^ 2" by simp
  then have "R - k = 2" by (rule power_inject_exp [THEN iffD1, rotated]) simp
  with kR show "k = R - 2" by simp
next
  assume "k = R - 2"
  with assms have "R = k + 2" by simp
  then show "(2::nat) ^ k \<le> 2 ^ R \<and> (2::nat) ^ R div 2 ^ k = 4"
    by (simp add: power_add)
qed

lemma encoder_depth:
  assumes init: "ByteCNN_init n emsize = Inr m"
    and "0 < bsz" and "2 \<le> r" and "2 \<le> n \<or> 2 < r" and "0 < emsize"
    and "list_all (\<lambda>s. 0 \<le> s \<and> s < int emsize) xs"
  shows "ByteCNNEncoder_forward (encoder m) ([bsz, 2 ^ nat r], xs) r'
         = (if nat (r' - 2) = nat (r - 2) then Inr ([bsz, emsize * 4], True) else Inl ShapeError)"
proof -
  define R where "R = nat r"
  define K where "K = nat (r - 2)"
  define k where "k = nat (r' - 2)"
  define res where "res = ByteCNNEncoder_forward (encoder m) ([bsz, 2 ^ nat r], xs) r'"
  have R: "2 \<le> R" and K: "K = R - 2"
    using assms(3) by (simp_all add: R_def K_def)
  have any: "res
         = (if k = 0
            then if ((2::nat) ^ R = 1 \<or> emsize = 1 \<or> 0 < n div 2) \<and> (2::nat) ^ R = 4
                 then Inr ([bsz, emsize * 4], True) else Inl ShapeError
            else if 2 ^ k \<le> (2::nat) ^ R \<and> (2::nat) ^ R div 2 ^ k = 4
                 then Inr ([bsz, emsize * 4], True) else Inl ShapeError)"
    unfolding k_def res_def R_def
    by (rule encoder_any_depth [OF init assms(2) _ assms(5) assms(6)]) simp
  have four: "(2::nat) ^ R = 4 \<longleftrightarrow> R = 2"
    using power_inject_exp [of "2::nat" R 2] by simp
  have "res = (if k = K then Inr ([bsz, emsize * 4], True) else Inl ShapeError)"
  proof (cases "k = 0")
    case True
    show ?thesis
    proof (cases "R = 2")
      case True
      then have "\<not> 2 < r" by (simp add: R_def)
      with assms(4) have "0 < n div 2" by simp
      with True \<open>k = 0\<close> show ?thesis
        by (simp add: any K)
    next
      case False
      with R have "K \<noteq> 0" by (simp add: K)
      with False \<open>k = 0\<close> show ?thesis
        by (simp add: any four)
    qed
  next
    case False
    then show ?thesis
      by (simp only: any halvings_reach_four [OF R] K if_False)
  qed
  then show ?thesis
    by (simp only: res_def k_def K_def)
qed

text \<open>
  Two models on which the round trip of a batch of length \<open>4 = 2 ^ 2\<close> raises. Without a
  residual block in the prefix (\<open>n = 0\<close>, which the constructor accepts) and without a recurrence
  (\<open>r = 2\<close>) the encoder views the transposed embedding itself, which is not contiguous; the
  batch is the line \<^verbatim>\<open>hi\<close> as the loader stores it. With \<open>emsize = 64\<close> the embedding has no
  row for the bytes of this line.
\<close>

theorem roundtrip_shape_counterexample:
  "and_then (ByteCNN_init 0 256) (\<lambda>m.
     and_then (ByteCNNEncoder_forward (encoder m) ([1, 4], [104, 105, 0, 7]) 2)
       (\<lambda>latent. ByteCNNDecoder_forward (decoder m) latent 2)) = Inl ShapeError
   \<and> and_then (ByteCNN_init 8 64) (\<lambda>m.
     and_then (ByteCNNEncoder_forward (encoder m) ([1, 4], [104, 105, 0, 7]) 2)
       (\<lambda>latent. ByteCNNDecoder_forward (decoder m) latent 2)) = Inl IndexError"
proof (intro conjI)
  show "and_then (ByteCNN_init 0 256) (\<lambda>m.
     and_then (ByteCNNEncoder_forward (encoder m) ([1, 4], [104, 105, 0, 7]) 2)
       (\<lambda>latent. ByteCNNDecoder_forward (decoder m) latent 2)) = Inl ShapeError"
    by (simp add: ByteCNN_init_def ByteCNNEncoder_init_def ByteCNNDecoder_init_def Let_def
        ByteCNNEncoder_forward_def Embedding_def Embedding_forward_def EMPTY_def
        transpose_1_2_def residual_list_def view_flat_def)
  show "and_then (ByteCNN_init 8 64) (\<lambda>m.
     and_then (ByteCNNEncoder_forward (encoder m) ([1, 4], [104, 105, 0, 7]) 2)
       (\<lambda>latent. ByteCNNDecoder_forward (decoder m) latent 2)) = Inl IndexError"
    by (simp add: ByteCNN_init_def ByteCNNEncoder_init_def ByteCNNDecoder_init_def Let_def
        ByteCNNEncoder_forward_def Embedding_def Embedding_forward_def EMPTY_def)
qed

text \<open>
  Claim C1 (round-trip shape law), amended. Let the model be constructed (which needs an even
  \<open>n\<close> and an embedding with a row for PAD), with a residual block in every stage
  (\<open>n \<ge> 2\<close>; the default is 8) or else \<open>r \<ge> 3\<close>. For every batch of at least one row
  whose symbols are below \<open>emsize\<close> and whose sequence length is \<open>L = 2 ^ r\<close> with
  \<open>r \<ge> 2\<close>, the encoder run with \<open>r\<close> yields the latent batch and the decoder run on it
  with the same \<open>r\<close> yields scores of shape \<open>(bsz, emsize, L)\<close>. One application of the
  recurrent stage of the encoder halves the length, one of the decoder doubles it; the
  \<open>r - 2\<close> halvings of the encoder take \<open>L\<close> down to 4 and the \<open>r - 2\<close> doublings of the
  decoder take 4 up to \<open>L\<close>. The depth matters: run to another depth \<open>r'\<close> (with another
  number of halvings) the encoder raises on this batch, and the decoder yields the length
  \<open>4 * 2 ^ (r' - 2)\<close>. On a batch with a symbol that is not below \<open>emsize\<close> the embedding
  raises.
\<close>

theorem roundtrip_shape:
  assumes "ByteCNN_init n emsize = Inr m"
    and "0 < bsz" and "2 \<le> r" and "2 \<le> n \<or> 2 < r"
    and "length xs = bsz * 2 ^ nat r"
    and "list_all (\<lambda>s. 0 \<le> s \<and> s < int emsize) xs"
  shows "n mod 2 = 0 \<and> EMPTY < int emsize \<and>
     and_then (ByteCNNEncoder_forward (encoder m) ([bsz, 2 ^ nat r], xs) r)
       (\<lambda>latent. ByteCNNDecoder_forward (decoder m) latent r)
       = Inr ([bsz, emsize, 2 ^ nat r], True) \<and>
     ByteCNNEncoder_forward (encoder m) ([bsz, 2 ^ nat r], xs) r'
       = (if nat (r' - 2) = nat (r - 2) then Inr ([bsz, emsize * 4], True) else Inl ShapeError) \<and>
     ByteCNNDecoder_forward (decoder m) ([bsz, emsize * 4], True) r'
       = Inr ([bsz, emsize, 4 * 2 ^ nat (r' - 2)], True) \<and>
     encoder_recurrent (encoder m) ([bsz, emsize, l], f)
       = (if 2 \<le> l then Inr ([bsz, emsize, l div 2], True) else Inl ShapeError) \<and>
     decoder_recurrent (decoder m) ([bsz, emsize, l], f)
       = (if 0 < l then Inr ([bsz, emsize, 2 * l], True) else Inl ShapeError) \<and>
     repeat_layer (nat (r - 2)) (encoder_recurrent (encoder m)) ([bsz, emsize, 2 ^ nat r], f)
       = Inr ([bsz, emsize, 4], f \<or> 2 < r) \<and>
     repeat_layer (nat (r - 2)) (decoder_recurrent (decoder m)) ([bsz, emsize, 4], f)
       = Inr ([bsz, emsize, 2 ^ nat r], f \<or> 2 < r) \<and>
     (\<not> list_all (\<lambda>s. 0 \<le> s \<and> s < int emsize) ys \<longrightarrow>
        ByteCNNEncoder_forward (encoder m) ([bsz, 2 ^ nat r], ys) r' = Inl IndexError)"
proof -
  note init = assms(1)
  define K where "K = nat (r - 2)"
  have R: "nat r = K + 2"
    using assms(3) by (simp add: K_def)
  have len: "(2::nat) ^ nat r = 4 * 2 ^ K"
    by (simp add: R power_add)
  have K0: "0 < K \<longleftrightarrow> 2 < r"
    by (auto simp add: K_def)
  have "xs \<noteq> []"
    using assms(2) assms(5) by auto
  then obtain s where "s \<in> set xs" by (cases xs) auto
  then have "0 \<le> s \<and> s < int emsize"
    using assms(6) by (simp add: list_all_iff)
  then have emsize: "0 < emsize" by simp
  have enc: "ByteCNNEncoder_forward (encoder m) ([bsz, 2 ^ nat r], xs) r'
       = (if nat (r' - 2) = nat (r - 2) then Inr ([bsz, emsize * 4], True) else Inl ShapeError)"
    for r'
    by (rule encoder_depth [OF init assms(2) assms(3) assms(4) emsize assms(6)])
  have dec: "ByteCNNDecoder_forward (decoder m) ([bsz, emsize * 4], True) r'
       = Inr ([bsz, emsize, 4 * 2 ^ nat (r' - 2)], True)" for r'
    by (rule decoder_any_depth [OF init])
  have c1: "n mod 2 = 0" and c0: "EMPTY < int emsize"
    using init by (rule ByteCNN_init_even)+
  have len': "(4::nat) * 2 ^ nat (r - 2) = 2 ^ nat r"
    by (simp add: len K_def)
  have c2: "and_then (ByteCNNEncoder_forward (encoder m) ([bsz, 2 ^ nat r], xs) r)
       (\<lambda>latent. ByteCNNDecoder_forward (decoder m) latent r)
       = Inr ([bsz, emsize, 2 ^ nat r], True)"
    by (simp add: enc dec len')
  have c5: "encoder_recurrent (encoder m) ([bsz, emsize, l], f)
       = (if 2 \<le> l then Inr ([bsz, emsize, l div 2], True) else Inl ShapeError)"
    by (simp only: ByteCNN_init_encoder [OF init] encoder_stage)
  have c6: "decoder_recurrent (decoder m) ([bsz, emsize, l], f)
       = (if 0 < l then Inr ([bsz, emsize, 2 * l], True) else Inl ShapeError)"
    by (simp only: ByteCNN_init_decoder [OF init] decoder_stage)
  have c7: "repeat_layer (nat (r - 2)) (encoder_recurrent (encoder m))
              ([bsz, emsize, 2 ^ nat r], f) = Inr ([bsz, emsize, 4], f \<or> 2 < r)"
  proof (cases "K = 0")
    case True
    then have "\<not> 2 < r" using K0 by simp
    with True show ?thesis
      unfolding ByteCNN_init_encoder [OF init] len K_def [symmetric]
      by (simp add: encoder_stages)
  next
    case False
    then have "2 < r" using K0 by simp
    with False show ?thesis
      unfolding ByteCNN_init_encoder [OF init] len K_def [symmetric]
      by (simp add: encoder_stages)
  qed
  have c8: "repeat_layer (nat (r - 2)) (decoder_recurrent (decoder m)) ([bsz, emsize, 4], f)
       = Inr ([bsz, emsize, 2 ^ nat r], f \<or> 2 < r)"
    unfolding ByteCNN_init_decoder [OF init] len K_def [symmetric]
    by (simp add: decoder_stages K0)
  have c9: "\<not> list_all (\<lambda>s. 0 \<le> s \<and> s < int emsize) ys \<longrightarrow>
        ByteCNNEncoder_forward (encoder m) ([bsz, 2 ^ nat r], ys) r' = Inl IndexError"
    by (simp add: ByteCNNEncoder_forward_def ByteCNN_init_encoder [OF init]
        Embedding_forward_def)
  show ?thesis
    by (intro conjI c1 c0 c2 enc dec c5 c6 c7 c8 c9)
qed

text \<open>
  The line \<^verbatim>\<open>bonjour\<close> is stored with length 8; the default model takes it with depth 3 to
  scores of length 8, and its encoder raises at depth 2.
\<close>

theorem roundtrip_shape_witness:
  "and_then (ByteCNN_init 8 256) (\<lambda>m.
     and_then (ByteCNNEncoder_forward (encoder m) ([1, 8], [98, 111, 110, 106, 111, 117, 114, 0]) 3)
       (\<lambda>latent. ByteCNNDecoder_forward (decoder m) latent 3)) = Inr ([1, 256, 8], True) \<and>
   and_then (ByteCNN_init 8 256) (\<lambda>m.
     ByteCNNEncoder_forward (encoder m) ([1, 8], [98, 111, 110, 106, 111, 117, 114, 0]) 2)
     = Inl ShapeError"
proof -
  obtain m where init: "ByteCNN_init 8 256 = Inr m"
    by (simp add: ByteCNN_init_def ByteCNNEncoder_init_def ByteCNNDecoder_init_def Let_def
        Embedding_def EMPTY_def)
  have len: "length [98, 111, 110, 106, 111, 117, 114, 0 :: int] = 1 * 2 ^ nat 3"
    by simp
  have sym: "list_all (\<lambda>s. 0 \<le> s \<and> s < int 256) [98, 111, 110, 106, 111, 117, 114, 0]"
    by simp
  have depth: "(2::int) \<le> 8 \<or> (2::int) < 3" by simp
  have "(0::nat) < 1" and "(2::int) \<le> 3" by simp_all
  from roundtrip_shape [where r' = 2 and l = 0 and f = True and ys = "[]",
      OF init this depth len sym]
  show ?thesis
    by (simp add: init)
qed

section \<open>The recurrence depth\<close>

subsection \<open>Rounding to a double\<close>

lemma round_half_even_of_int [simp]: "round_half_even (of_int j) = j"
  by (simp add: round_half_even_def)

lemma round_half_even_error: "\<bar>real_of_int (round_half_even y) - y\<bar> \<le> 1 / 2"
proof (cases "frac y = 1 / 2")
  case True
  then have "y - real_of_int \<lfloor>y\<rfloor> = 1 / 2" by (simp add: frac_def)
  then show ?thesis by (simp add: round_half_even_def True)
next
  case False
  then show ?thesis
    using of_int_round_abs_le [of y] by (simp add: round_half_even_def)
qed

lemma round_half_even_near:
  assumes "\<bar>y - real_of_int j\<bar> < 1 / 2"
  shows "round_half_even y = j"
proof -
  have r: "round y = j" using assms by (rule round_unique')
  have "frac y \<noteq> 1 / 2"
  proof
    assume h: "frac y = 1 / 2"
    then have y: "y = real_of_int \<lfloor>y\<rfloor> + 1 / 2" by (simp add: frac_def)
    define d where "d = \<lfloor>y\<rfloor> - j"
    have "y - real_of_int j = real_of_int d + 1 / 2"
      using y by (simp add: d_def)
    with assms have "real_of_int d < 0" and "- 1 < real_of_int d"
      by linarith+
    then have "d < 0" and "- 1 < d" by linarith+
    then show False by linarith
  qed
  then show ?thesis by (simp add: round_half_even_def r)
qed

text \<open>A real number that is an integer multiple of its unit in the last place is a double.\<close>

lemma float64_exact:
  assumes "0 < x" and "x * 2 powr real_of_int (52 - \<lfloor>log 2 x\<rfloor>) = real_of_int j"
  shows "float64 x = x"
proof -
  let ?e = "\<lfloor>log 2 x\<rfloor>"
  have ax: "\<bar>x\<bar> = x" using assms(1) by simp
  have y: "round_half_even (x * 2 powr real_of_int (52 - ?e)) = j"
    by (simp only: assms(2) round_half_even_of_int)
  have "real_of_int j * 2 powr real_of_int (?e - 52)
        = x * (2 powr real_of_int (52 - ?e) * 2 powr real_of_int (?e - 52))"
    by (simp only: assms(2) [symmetric] mult.assoc)
  also have "2 powr real_of_int (52 - ?e) * 2 powr real_of_int (?e - 52) = 1"
    by (simp add: powr_add [symmetric])
  finally have "real_of_int j * 2 powr real_of_int (?e - 52) = x" by simp
  moreover have "float64 x = real_of_int j * 2 powr real_of_int (?e - 52)"
    unfolding float64_def Let_def ax y using assms(1) by simp
  ultimately show ?thesis by simp
qed

lemma float64_nat:
  assumes "m < 2 ^ 53"
  shows "float64 (real m) = real m"
proof (cases "m = 0")
  case True
  then show ?thesis by (simp add: float64_def)
next
  case False
  let ?e = "\<lfloor>log 2 (real m)\<rfloor>"
  have pos: "0 < real m" using False by simp
  have "real m < real (2 ^ 53)"
    using assms by (simp only: of_nat_less_iff)
  then have "real m < 2 powr 53" by simp
  then have "log 2 (real m) < 53"
    using pos by (simp add: log_less_iff)
  then have "?e < 53" by linarith
  define n where "n = 52 - ?e"
  have "0 \<le> n" using \<open>?e < 53\<close> by (simp add: n_def)
  then have "2 powr real_of_int n = 2 ^ nat n"
    by (simp add: powr_real_of_int)
  then have "real m * 2 powr real_of_int n = real_of_int (int m * 2 ^ nat n)"
    by simp
  then have "real m * 2 powr real_of_int (52 - ?e) = real_of_int (int m * 2 ^ nat n)"
    by (simp only: n_def)
  with pos show ?thesis by (rule float64_exact)
qed

lemma float64_power_of_two: "float64 (2 ^ k) = 2 ^ k"
proof -
  have e: "\<lfloor>log 2 ((2::real) ^ k)\<rfloor> = int k"
    by (simp add: log_nat_power)
  have "(2::real) ^ k * 2 powr real_of_int (52 - int k) = 2 powr real k * 2 powr (52 - real k)"
    by (simp add: powr_realpow)
  also have "\<dots> = 2 powr 52" by (simp add: powr_add [symmetric])
  also have "\<dots> = real_of_int (2 ^ 52)" by simp
  finally have "(2::real) ^ k * 2 powr real_of_int (52 - \<lfloor>log 2 ((2::real) ^ k)\<rfloor>) = real_of_int (2 ^ 52)"
    by (simp only: e)
  then show ?thesis by (rule float64_exact [rotated]) simp
qed

lemma float64_error:
  assumes "0 < x"
  shows "\<bar>float64 x - x\<bar> \<le> 2 powr real_of_int (\<lfloor>log 2 x\<rfloor> - 53)"
proof -
  let ?e = "\<lfloor>log 2 x\<rfloor>"
  let ?y = "x * 2 powr real_of_int (52 - ?e)"
  let ?u = "2 powr real_of_int (?e - 52)"
  have u: "2 powr real_of_int (52 - ?e) * ?u = 1"
    by (simp add: powr_add [symmetric])
  have "float64 x - x = real_of_int (round_half_even ?y) * ?u - ?y * ?u"
    using assms u by (simp add: float64_def Let_def)
  also have "\<dots> = (real_of_int (round_half_even ?y) - ?y) * ?u"
    by (simp add: algebra_simps)
  finally have "\<bar>float64 x - x\<bar> = \<bar>real_of_int (round_half_even ?y) - ?y\<bar> * ?u"
    by (simp add: abs_mult)
  also have "\<dots> \<le> 1 / 2 * ?u"
    by (rule mult_right_mono [OF round_half_even_error]) simp
  also have "\<dots> = 2 powr real_of_int (?e - 53)"
    by (simp add: powr_diff)
  finally show ?thesis .
qed

subsection \<open>The logarithm near a power of two\<close>

lemma ln2_upper: "ln (2::real) \<le> 1"
proof -
  have "(2::real) \<le> exp 1" using exp_ge_add_one_self [of 1] by simp
  then have "ln (2::real) \<le> ln (exp 1)" by (subst ln_le_cancel_iff) simp_all
  then show ?thesis by simp
qed

lemma ln2_lower: "7 / 12 \<le> ln (2::real)"
proof -
  have a: "ln (1 + (- 1 / 4)) \<le> (- 1 / 4 :: real)"
    by (rule ln_add_one_self_le_self2) simp
  have b: "ln (1 + (- 1 / 3)) \<le> (- 1 / 3 :: real)"
    by (rule ln_add_one_self_le_self2) simp
  have "ln (2::real) = ln (1 / ((3 / 4) * (2 / 3)))" by simp
  also have "\<dots> = - (ln (3 / 4) + ln (2 / 3 :: real))"
    by (simp only: ln_div ln_mult) (simp add: ln_mult ln_div)
  finally show ?thesis using a b by simp
qed

lemma log2_one_plus_lower:
  assumes "0 \<le> y" and "y \<le> 1 / 2"
  shows "y / 2 \<le> log 2 (1 + y)"
proof -
  have "y - y\<^sup>2 \<le> ln (1 + y)"
    using assms by (intro ln_one_plus_pos_lower_bound) simp_all
  moreover have "y * y \<le> y * (1 / 2)"
    by (rule mult_left_mono [OF assms(2) assms(1)])
  then have "y\<^sup>2 \<le> y / 2"
    by (simp add: power2_eq_square)
  ultimately have l: "y / 2 \<le> ln (1 + y)" by simp
  have pos: "0 \<le> ln (1 + y)" using assms by simp
  have "0 < ln (2::real)" by simp
  have "ln (1 + y) * ln 2 \<le> ln (1 + y) * 1"
    by (rule mult_left_mono [OF ln2_upper pos])
  then have "ln (1 + y) \<le> ln (1 + y) / ln 2"
    by (simp add: field_simps)
  with l have "y / 2 \<le> ln (1 + y) / ln 2" by (rule order_trans)
  then show ?thesis by (simp only: log_def)
qed

lemma log2_one_plus_upper:
  assumes "0 \<le> y"
  shows "log 2 (1 + y) \<le> 12 / 7 * y"
proof -
  have u: "ln (1 + y) \<le> y" using assms by (rule ln_add_one_self_le_self)
  have pos: "0 \<le> ln (1 + y)" using assms by simp
  have "ln (1 + y) * (7 / 12) \<le> ln (1 + y) * ln 2"
    by (rule mult_left_mono [OF ln2_lower pos])
  then have "ln (1 + y) / ln 2 \<le> 12 / 7 * ln (1 + y)"
    by (simp add: field_simps)
  also have "\<dots> \<le> 12 / 7 * y" using u by simp
  finally show ?thesis by (simp only: log_def)
qed

lemma np_log2_exact:
  assumes "m < 2 ^ 53"
  shows "np_log2 m = float64 (log 2 (real m))"
  by (simp only: np_log2_def float64_nat [OF assms])

lemma num_recurrences_exact:
  assumes "L = 2 ^ k" and "L < 2 ^ 63"
  shows "num_recurrences (sh @ [L]) = Inr (int k)"
proof -
  have "(2::nat) ^ k < 2 ^ 63" using assms by simp
  then have k: "k < 63" by (rule power_less_imp_less_exp [rotated]) simp
  then have "k < 2 ^ 53" by simp
  then have fk: "float64 (real k) = real k" by (rule float64_nat)
  have "float64 (real L) = real L"
    using float64_power_of_two [of k] by (simp add: assms(1))
  moreover have "log 2 (real L) = real k"
    by (simp add: assms(1) log_nat_power)
  ultimately have l: "np_log2 L = real k"
    by (simp only: np_log2_def fk)
  have fl: "\<lfloor>real k\<rfloor> = int k" by simp
  have fk': "float64 (real_of_int (int k)) = real k" using fk by simp
  have "L \<noteq> 0" using assms(1) by simp
  then show ?thesis
    by (simp add: num_recurrences_def Let_def l fk)
qed

text \<open>Between two powers of two the logarithm keeps away from the integers.\<close>

lemma log2_above:
  assumes "2 ^ k < L" and "0 < k"
  shows "real k + 1 / 2 ^ (k + 1) \<le> log 2 (real L)"
proof -
  have "(1::real) / 2 ^ k \<le> 1 / 2 ^ 1"
    using assms(2) by (intro divide_left_mono power_increasing) simp_all
  then have "(1 / 2 ^ k) / 2 \<le> log 2 (1 + 1 / 2 ^ k)"
    by (intro log2_one_plus_lower) simp_all
  moreover have "2 ^ k + 1 \<le> L" using assms(1) by simp
  then have "real (2 ^ k + 1) \<le> real L" by (simp only: of_nat_le_iff)
  then have "(2::real) ^ k * (1 + 1 / 2 ^ k) \<le> real L"
    by (simp add: algebra_simps)
  then have "log 2 (2 ^ k * (1 + 1 / 2 ^ k)) \<le> log 2 (real L)"
    by (intro log_mono) (simp_all add: add_pos_pos)
  moreover have "log 2 (2 ^ k * (1 + 1 / 2 ^ k)) = real k + log 2 (1 + 1 / 2 ^ k)"
    by (subst log_mult_pos) (simp_all add: add_pos_pos log_nat_power)
  ultimately show ?thesis by simp
qed

lemma log2_below:
  assumes "L < 2 ^ (k + 1)" and "0 < L"
  shows "log 2 (real L) \<le> real k + 1 - 1 / 2 ^ (k + 2)"
proof -
  let ?y = "(1::real) / 2 ^ (k + 1)"
  have "?y \<le> 1 / 2 ^ 1"
    by (intro divide_left_mono power_increasing) simp_all
  then have l: "?y / 2 \<le> log 2 (1 + ?y)"
    by (intro log2_one_plus_lower) simp_all
  have "L + 1 \<le> 2 ^ (k + 1)" using assms(1) by simp
  then have "real (L + 1) \<le> real (2 ^ (k + 1))" by (simp only: of_nat_le_iff)
  then have le: "real L \<le> 2 ^ (k + 1) - 1" by simp
  define p :: real where "p = 2 ^ (k + 1)"
  have p: "0 < p" by (simp add: p_def)
  have "real L * (1 + 1 / p) \<le> (p - 1) * (1 + 1 / p)"
    using le p by (intro mult_right_mono) (simp_all add: p_def)
  also have "\<dots> = p - 1 / p"
    using p by (simp add: field_simps)
  also have "\<dots> \<le> p" using p by simp
  finally have "real L * (1 + ?y) \<le> 2 ^ (k + 1)"
    by (simp only: p_def)
  then have "log 2 (real L * (1 + ?y)) \<le> log 2 (2 ^ (k + 1))"
    using assms(2) by (intro log_mono) (simp_all add: add_pos_pos)
  moreover have "log 2 (real L * (1 + ?y)) = log 2 (real L) + log 2 (1 + ?y)"
    using assms(2) by (subst log_mult_pos) (simp_all add: add_pos_pos)
  moreover have "log 2 ((2::real) ^ (k + 1)) = real k + 1"
    using log_nat_power [of 2 2 "k + 1"] by simp
  ultimately have "log 2 (real L) + log 2 (1 + ?y) \<le> real k + 1" by simp
  with l show ?thesis by simp
qed

lemma float64_near_small:
  assumes "1 \<le> x" and "x < 64"
  shows "\<bar>float64 x - x\<bar> \<le> 1 / 2 ^ 48"
proof -
  have pos: "0 < x" using assms(1) by simp
  have "x < 2 powr 6" using assms(2) by simp
  then have "log 2 x < 6" using pos by (simp add: log_less_iff)
  then have "\<lfloor>log 2 x\<rfloor> \<le> 5" by linarith
  then have "real_of_int (\<lfloor>log 2 x\<rfloor> - 53) \<le> - 48" by simp
  then have "2 powr real_of_int (\<lfloor>log 2 x\<rfloor> - 53) \<le> 2 powr (- 48)"
    by (rule powr_mono) simp
  also have "\<dots> = 1 / 2 ^ 48"
    by (simp add: powr_minus_divide)
  finally show ?thesis
    using float64_error [OF pos] by (rule order_trans [rotated])
qed

lemma num_recurrences_rejects:
  assumes "0 < L" and "L < 2 ^ 46" and "\<forall>k. L \<noteq> 2 ^ k"
  shows "num_recurrences (sh @ [L]) = Inl AssertionError"
proof -
  define x where "x = log 2 (real L)"
  define k where "k = nat \<lfloor>x\<rfloor>"
  have "0 \<le> x" using assms(1) by (simp add: x_def)
  then have "\<lfloor>x\<rfloor> = int k" by (simp add: k_def)
  then have "2 ^ k \<le> L \<and> L < 2 ^ (k + 1)"
    using floor_log_nat_eq_powr_iff [of 2 L k] assms(1) by (simp add: x_def)
  then have lo: "2 ^ k < L" and hi: "L < 2 ^ (k + 1)"
    using assms(3) [rule_format, of k] by simp_all
  have k0: "0 < k"
  proof (rule ccontr)
    assume "\<not> 0 < k"
    then have "k = 0" by simp
    with lo hi show False by simp
  qed
  have "(2::nat) ^ k < 2 ^ 46" using lo assms(2) by (rule less_trans)
  then have k45: "k < 46" by (rule power_less_imp_less_exp [rotated]) simp
  have small: "(1::real) / 2 ^ 47 \<le> 1 / 2 ^ (k + 2)"
    using k45 by (intro divide_left_mono power_increasing) simp_all
  have "(1::real) / 2 ^ (k + 2) \<le> 1 / 2 ^ (k + 1)"
    by (intro divide_left_mono power_increasing) simp_all
  with small have small': "(1::real) / 2 ^ 47 \<le> 1 / 2 ^ (k + 1)" by (rule order_trans)
  have above: "real k + 1 / 2 ^ 47 \<le> x"
    using log2_above [OF lo k0] small' unfolding x_def by linarith
  have below: "x \<le> real k + 1 - 1 / 2 ^ 47"
    using log2_below [OF hi assms(1)] small unfolding x_def by linarith
  have "1 \<le> x" using above k0 by (simp add: add_increasing2)
  moreover have "x < 64" using below k45 by simp
  ultimately have near: "\<bar>float64 x - x\<bar> \<le> 1 / 2 ^ 48"
    by (rule float64_near_small)
  have "L < 2 ^ 53" using assms(2) by simp
  then have l: "np_log2 L = float64 x"
    by (simp only: np_log2_exact x_def)
  define a :: real where "a = 1 / 2 ^ 47"
  define b :: real where "b = 1 / 2 ^ 48"
  have ba: "b < a" by (simp add: a_def b_def)
  have "real k < float64 x"
    using near above ba unfolding a_def [symmetric] b_def [symmetric] by linarith
  moreover have "float64 x < real k + 1"
    using near below ba unfolding a_def [symmetric] b_def [symmetric] by linarith
  ultimately have fl: "\<lfloor>float64 x\<rfloor> = int k" and ne: "float64 x \<noteq> real k"
    by (simp_all add: floor_eq_iff)
  have "k < 2 ^ 53" using k45 by simp
  then have fk: "float64 (real k) = real k" by (rule float64_nat)
  show ?thesis
    using assms(1) ne by (simp add: num_recurrences_def Let_def l fl fk)
qed

lemma num_recurrences_accepts:
  "num_recurrences (sh @ [2 ^ 49 + 1]) = Inr 49"
proof -
  define L :: nat where "L = 2 ^ 49 + 1"
  define x where "x = log 2 (real L)"
  define y :: real where "y = 1 / 2 ^ 49"
  have "real L = 2 ^ 49 * (1 + y)" by (simp add: L_def y_def)
  then have "x = log 2 (2 ^ 49) + log 2 (1 + y)"
    unfolding x_def by (simp only: ) (subst log_mult_pos, simp_all add: y_def)
  moreover have "log 2 ((2::real) ^ 49) = 49"
    using log_nat_power [of 2 2 49] by simp
  ultimately have x: "x = 49 + log 2 (1 + y)" by simp
  have lo: "0 \<le> log 2 (1 + y)" by (simp add: y_def)
  have hi: "log 2 (1 + y) \<le> 12 / 7 * y"
    by (rule log2_one_plus_upper) (simp add: y_def)
  have "2 powr 5 \<le> x" using x lo by simp
  moreover have "x < 2 powr (5 + 1)" using x hi by (simp add: y_def)
  ultimately have e: "\<lfloor>log 2 x\<rfloor> = 5"
    using x lo by (subst floor_log_eq_powr_iff) simp_all
  have "x * 2 powr real_of_int (52 - 5) = x * 2 ^ 47"
    by simp
  also have "\<dots> = real_of_int (49 * 2 ^ 47) + log 2 (1 + y) * 2 ^ 47"
    by (simp add: x algebra_simps)
  finally have "\<bar>x * 2 powr real_of_int (52 - 5) - real_of_int (49 * 2 ^ 47)\<bar> < 1 / 2"
    using lo hi by (simp add: y_def)
  then have r: "round_half_even (x * 2 powr real_of_int (52 - 5)) = 49 * 2 ^ 47"
    by (rule round_half_even_near)
  have "x \<noteq> 0" "\<bar>x\<bar> = x" using x lo by simp_all
  then have "float64 x = real_of_int (49 * 2 ^ 47) * 2 powr real_of_int (5 - 52)"
    unfolding float64_def Let_def by (simp only: e r if_False)
  also have "\<dots> = 49"
    by (simp add: powr_minus_divide)
  finally have f: "float64 x = 49" .
  have "L < 2 ^ 53" by (simp add: L_def)
  then have l: "np_log2 L = 49"
    by (simp only: np_log2_exact x_def [symmetric] f)
  have fk: "float64 (real 49) = real 49" by (rule float64_nat) simp
  have "L \<noteq> 0" by (simp add: L_def)
  then have "num_recurrences (sh @ [L]) = Inr 49"
    using fk by (simp add: num_recurrences_def Let_def l)
  then show ?thesis by (simp only: L_def)
qed

lemma not_power_of_two_100: "(100::nat) \<noteq> 2 ^ k"
proof (cases "k < 7")
  case True
  then have "k \<in> {0, 1, 2, 3, 4, 5, 6}" by auto
  then show ?thesis by auto
next
  case False
  then have "7 \<le> k" by simp
  then have "(2::nat) ^ 7 \<le> 2 ^ k" by (rule power_increasing) simp
  then show ?thesis by simp
qed

lemma successor_not_power_of_two: "(2::nat) ^ 49 + 1 \<noteq> 2 ^ k"
proof (cases k)
  case 0
  then show ?thesis by simp
next
  case (Suc j)
  have "odd ((2::nat) ^ 49 + 1)" by simp
  moreover have "even ((2::nat) ^ k)" by (simp add: Suc)
  ultimately show ?thesis by metis
qed

text \<open>
  Claim C2, amended. On a batch whose trailing dimension is \<open>L\<close>, \<open>num_recurrences\<close> returns
  \<open>log2 L\<close> when \<open>L\<close> is a power of two (of any size a tensor can have, \<open>L < 2 ^ 63\<close>), and
  raises when \<open>L\<close> is not a power of two and \<open>L < 2 ^ 46\<close> (the assertion fails; on \<open>L = 0\<close>
  the conversion of minus infinity raises first). Below \<open>2 ^ 46\<close> the logarithm of a number
  that is not a power of two is further from every integer than the rounding of a double can
  bridge.
\<close>

theorem num_recurrences_power_of_two:
  "(L = 2 ^ k \<and> L < 2 ^ 63 \<longrightarrow> num_recurrences (sh @ [L]) = Inr (int k)) \<and>
   ((\<forall>k. L \<noteq> 2 ^ k) \<and> L < 2 ^ 46 \<longrightarrow>
      num_recurrences (sh @ [L]) = Inl (if L = 0 then OverflowError else AssertionError))"
proof (intro conjI impI)
  assume "L = 2 ^ k \<and> L < 2 ^ 63"
  then have "L = 2 ^ k" and "L < 2 ^ 63" by simp_all
  then show "num_recurrences (sh @ [L]) = Inr (int k)"
    by (rule num_recurrences_exact)
next
  assume np: "(\<forall>k. L \<noteq> 2 ^ k) \<and> L < 2 ^ 46"
  show "num_recurrences (sh @ [L]) = Inl (if L = 0 then OverflowError else AssertionError)"
  proof (cases "L = 0")
    case True
    then show ?thesis by (simp add: num_recurrences_def)
  next
    case False
    then have "0 < L" by simp
    then have "num_recurrences (sh @ [L]) = Inl AssertionError"
      using np by (intro num_recurrences_rejects) simp_all
    with False show ?thesis by simp
  qed
qed

theorem num_recurrences_witness:
  "num_recurrences [128, 64] = Inr 6 \<and> num_recurrences [128, 100] = Inl AssertionError"
proof -
  have "(64::nat) = 2 ^ 6 \<and> (64::nat) < 2 ^ 63" by simp
  then have "num_recurrences ([128] @ [64]) = Inr (int 6)"
    using num_recurrences_power_of_two [of 64 6 "[128]"] by blast
  moreover have "(\<forall>k. (100::nat) \<noteq> 2 ^ k) \<and> (100::nat) < 2 ^ 46"
    using not_power_of_two_100 by simp
  then have "num_recurrences ([128] @ [100]) = Inl AssertionError"
    using num_recurrences_power_of_two [of 100 0 "[128]"] by simp
  ultimately show ?thesis by simp
qed

text \<open>
  The size \<open>2 ^ 49 + 1\<close> is not a power of two, but its logarithm is nearer to 49 than to
  any other double, and \<open>num_recurrences\<close> returns 49.
\<close>

theorem num_recurrences_counterexample:
  "(\<forall>k. (2::nat) ^ 49 + 1 \<noteq> 2 ^ k) \<and> num_recurrences [1, 2 ^ 49 + 1] = Inr 49"
proof
  show "\<forall>k. (2::nat) ^ 49 + 1 \<noteq> 2 ^ k"
    by (simp only: successor_not_power_of_two) simp
  show "num_recurrences [1, 2 ^ 49 + 1] = Inr 49"
    using num_recurrences_accepts [of "[1]"] by simp
qed

text \<open>
  The whole forward pass: on a batch of length \<open>2 ^ k\<close>, \<open>k \<ge> 2\<close>, the scores have the
  length of the batch.
\<close>

lemma ByteCNN_forward_shape:
  assumes "ByteCNN_init n emsize = Inr m"
    and "0 < bsz" and "2 \<le> k" and "k < 63" and "2 \<le> n"
    and "length xs = bsz * 2 ^ k"
    and "list_all (\<lambda>s. 0 \<le> s \<and> s < int emsize) xs"
  shows "ByteCNN_forward m ([bsz, 2 ^ k], xs) = Inr ([bsz, emsize, 2 ^ k], True)"
proof -
  have "(2::nat) ^ k < 2 ^ 63"
    using assms(4) by (intro power_strict_increasing) simp_all
  then have depth: "num_recurrences [bsz, 2 ^ k] = Inr (int k)"
    using num_recurrences_exact [of "2 ^ k" k "[bsz]"] by simp
  have r: "2 \<le> int k"
    using assms(3) by simp
  have "xs \<noteq> []"
    using assms(2) assms(6) by auto
  then obtain s where "s \<in> set xs" by (cases xs) auto
  then have "0 \<le> s \<and> s < int emsize"
    using assms(7) by (simp add: list_all_iff)
  then have emsize: "0 < emsize" by simp
  have n: "2 \<le> n \<or> 2 < int k"
    using assms(5) by simp
  have enc: "ByteCNNEncoder_forward (encoder m) ([bsz, 2 ^ k], xs) (int k)
             = Inr ([bsz, emsize * 4], True)"
    using encoder_depth [OF assms(1) assms(2) r n emsize assms(7), of "int k"] by simp
  have "nat (int k - 2) = k - 2" by simp
  moreover have "(4::nat) * 2 ^ (k - 2) = 2 ^ k"
  proof -
    obtain j where "k = j + 2"
      using assms(3) by (metis le_add_diff_inverse2)
    then show ?thesis by (simp add: power_add)
  qed
  ultimately have dec: "ByteCNNDecoder_forward (decoder m) ([bsz, emsize * 4], True) (int k)
      = Inr ([bsz, emsize, 2 ^ k], True)"
    using decoder_any_depth [OF assms(1), of bsz "int k"] by simp
  show ?thesis
    by (simp add: ByteCNN_forward_def depth enc dec)
qed

section \<open>Padding of the lines\<close>

lemma padded_len_power:
  assumes "0 < m"
  shows "padded_len m = 2 ^ nat \<lceil>log 2 (real m)\<rceil>"
proof -
  let ?c = "\<lceil>log 2 (real m)\<rceil>"
  have "0 \<le> log 2 (real m)"
    using assms by simp
  then have nonneg: "0 \<le> ?c" by linarith
  have "2 powr real_of_int ?c = 2 powr real (nat ?c)"
    using nonneg by simp
  also have "\<dots> = real (2 ^ nat ?c)"
    by (simp add: powr_realpow)
  finally have "\<lfloor>2 powr real_of_int ?c\<rfloor> = int (2 ^ nat ?c)"
    by (simp only: floor_of_nat)
  then show ?thesis
    by (simp only: padded_len_def nat_int)
qed

lemma padded_len_covers:
  assumes "0 < m"
  shows "m \<le> padded_len m"
proof -
  let ?c = "\<lceil>log 2 (real m)\<rceil>"
  have "0 \<le> log 2 (real m)"
    using assms by simp
  then have nonneg: "0 \<le> ?c" by linarith
  have "real m = 2 powr log 2 (real m)"
    using assms by simp
  also have "\<dots> \<le> 2 powr real_of_int ?c"
    by (rule powr_mono) simp_all
  also have "\<dots> = 2 powr real (nat ?c)"
    using nonneg by simp
  also have "\<dots> = real (2 ^ nat ?c)"
    by (simp add: powr_realpow)
  finally have "m \<le> 2 ^ nat ?c"
    by (simp only: of_nat_le_iff)
  then show ?thesis
    by (simp only: padded_len_power [OF assms])
qed

lemma padded_len_least:
  assumes "0 < m" and "m \<le> 2 ^ j"
  shows "nat \<lceil>log 2 (real m)\<rceil> \<le> j"
proof -
  have "real m \<le> real (2 ^ j)"
    using assms(2) by (simp only: of_nat_le_iff)
  moreover have "0 < real m"
    using assms(1) by simp
  ultimately have "log 2 (real m) \<le> log 2 (real (2 ^ j))"
    by (intro log_mono) simp_all
  also have "\<dots> = real j"
    by (simp add: log_nat_power)
  finally have "log 2 (real m) \<le> real_of_int (int j)"
    by simp
  then have "\<lceil>log 2 (real m)\<rceil> \<le> int j"
    by (rule ceiling_le)
  then show ?thesis by (simp only: nat_le_iff)
qed

text \<open>The padded length of \<open>m\<close> symbols, for \<open>m\<close> between two powers of two.\<close>

lemma padded_len_between:
  assumes "2 ^ k < m" and "m \<le> 2 ^ Suc k"
  shows "padded_len m = 2 ^ Suc k"
proof -
  define c where "c = nat \<lceil>log 2 (real m)\<rceil>"
  have pos: "0 < m"
    using assms(1) by (cases m) simp_all
  have len: "padded_len m = 2 ^ c"
    unfolding c_def by (rule padded_len_power [OF pos])
  have upper: "c \<le> Suc k"
    unfolding c_def using pos assms(2) by (rule padded_len_least)
  have "m \<le> 2 ^ c"
    using padded_len_covers [OF pos] by (simp only: len)
  with assms(1) have "(2::nat) ^ k < 2 ^ c" by (rule less_le_trans)
  then have "k < c" by simp
  with upper have "c = Suc k" by linarith
  then show ?thesis
    by (simp only: len)
qed

lemma padded_len_exact: "padded_len (2 ^ k) = 2 ^ k"
proof -
  have "padded_len (2 ^ k) = 2 ^ nat \<lceil>log 2 (real (2 ^ k))\<rceil>"
    by (rule padded_len_power) simp
  also have "log 2 (real (2 ^ k)) = real k"
    by (simp add: log_nat_power)
  finally show ?thesis by simp
qed

lemma padded_len_2: "padded_len 2 = 2"
  using padded_len_exact [of 1] by simp

lemma padded_len_3: "padded_len 3 = 4"
  using padded_len_between [of 1 3] by simp

lemma padded_len_4: "padded_len 4 = 4"
  using padded_len_exact [of 2] by simp

lemma pad_bytes_shape:
  "pad_bytes content =
     content @ [EOS] @ replicate (padded_len (length content + 1) - (length content + 1)) EMPTY"
  by (simp add: pad_bytes_def Let_def)

lemma length_pad_bytes: "length (pad_bytes content) = padded_len (length content + 1)"
  using padded_len_covers [of "length content + 1"] by (simp add: pad_bytes_shape)

lemma two_power_le_imp_le:
  assumes "(3::nat) \<le> 2 ^ k" and "k \<le> 2"
  shows "k = 2"
proof -
  from assms(2) have "k = 0 \<or> k = 1 \<or> k = 2" by auto
  with assms(1) show ?thesis by auto
qed

lemma content_hi: "content_bytes [104, 105, 10] = [104, 105]"
  by (simp add: content_bytes_def strip_def isspace_def encode_utf8_def encode_char_def)

text \<open>
  Claim C5, as amended. For every line, the stored sequence is the bytes of the stripped
  line, then EOS, then PAD symbols only; its length is the smallest power of two that is
  at least the content length plus one. The PAD symbols that the loader adds all come
  after the EOS that it appends; where the line itself holds no byte 7, no PAD symbol
  stands before that EOS.
\<close>

theorem line_bytes_padding:
  "\<exists>k. line_bytes line
          = content_bytes line @ [EOS] @ replicate (2 ^ k - (length (content_bytes line) + 1)) EMPTY
      \<and> length (line_bytes line) = 2 ^ k
      \<and> length (content_bytes line) + 1 \<le> 2 ^ k
      \<and> (\<forall>j. length (content_bytes line) + 1 \<le> 2 ^ j \<longrightarrow> k \<le> j)
      \<and> (EMPTY \<notin> set (content_bytes line)
           \<longrightarrow> EMPTY \<notin> set (take (length (content_bytes line) + 1) (line_bytes line)))"
proof -
  let ?c = "content_bytes line"
  let ?m = "length ?c + 1"
  let ?k = "nat \<lceil>log 2 (real ?m)\<rceil>"
  have pos: "0 < ?m" by simp
  have len: "padded_len ?m = 2 ^ ?k"
    by (rule padded_len_power [OF pos])
  have shape: "line_bytes line = ?c @ [EOS] @ replicate (2 ^ ?k - ?m) EMPTY"
    by (simp only: line_bytes_def pad_bytes_shape len)
  have "length (line_bytes line) = 2 ^ ?k"
    by (simp only: line_bytes_def length_pad_bytes len)
  moreover have "?m \<le> 2 ^ ?k"
    using padded_len_covers [OF pos] by (simp only: len)
  moreover have "\<forall>j. ?m \<le> 2 ^ j \<longrightarrow> ?k \<le> j"
    using padded_len_least [OF pos] by blast
  moreover have "EMPTY \<notin> set ?c \<longrightarrow> EMPTY \<notin> set (take ?m (line_bytes line))"
    by (simp add: shape EOS_def EMPTY_def)
  ultimately show ?thesis
    using shape by blast
qed

text \<open>The line \<^verbatim>\<open>hi\<close> with its line feed: three symbols with the EOS, padded to four.\<close>

theorem line_bytes_padding_witness:
  "line_bytes [104, 105, 10] = [104, 105, 0, 7] \<and>
   EMPTY \<notin> set (take 3 (line_bytes [104, 105, 10]))"
proof -
  have len: "length [104, 105::int] + 1 = 3" by simp
  from line_bytes_padding [of "[104, 105, 10]"] obtain k where
    "line_bytes [104, 105, 10] = [104, 105] @ [EOS] @ replicate (2 ^ k - 3) EMPTY
      \<and> length (line_bytes [104, 105, 10]) = 2 ^ k
      \<and> 3 \<le> (2::nat) ^ k
      \<and> (\<forall>j. 3 \<le> (2::nat) ^ j \<longrightarrow> k \<le> j)
      \<and> (EMPTY \<notin> set [104, 105]
           \<longrightarrow> EMPTY \<notin> set (take 3 (line_bytes [104, 105, 10])))"
    unfolding content_hi len by blast
  then have shape: "line_bytes [104, 105, 10] = [104, 105] @ [EOS] @ replicate (2 ^ k - 3) EMPTY"
    and cover: "(3::nat) \<le> 2 ^ k"
    and least: "\<forall>j. (3::nat) \<le> 2 ^ j \<longrightarrow> k \<le> j"
    and nopad: "EMPTY \<notin> set [104, 105::int]
                 \<longrightarrow> EMPTY \<notin> set (take 3 (line_bytes [104, 105, 10]))"
    by blast+
  have "(3::nat) \<le> 2 ^ 2" by simp
  with least have "k \<le> 2" by blast
  with cover have "k = 2" by (rule two_power_le_imp_le)
  with shape have "line_bytes [104, 105, 10] = [104, 105, 0, 7]"
    by (simp add: EOS_def EMPTY_def numeral_eq_Suc)
  moreover have "EMPTY \<notin> set (take 3 (line_bytes [104, 105, 10]))"
    using nopad by (simp add: EMPTY_def)
  ultimately show ?thesis by simp
qed

text \<open>
  The claim as it is written fails on a line that holds the control character BEL, whose
  byte is 7, the value of PAD: the line \<^verbatim>\<open>a\<close>, BEL, \<^verbatim>\<open>b\<close> is stored with a PAD symbol before
  its EOS.
\<close>

theorem pad_before_eos_counterexample:
  "line_bytes [97, 7, 98, 10] = [97, EMPTY, 98, EOS] \<and>
   EMPTY \<in> set (takeWhile (\<lambda>b. b \<noteq> EOS) (line_bytes [97, 7, 98, 10]))"
proof -
  have "content_bytes [97, 7, 98, 10] = [97, 7, 98]"
    by (simp add: content_bytes_def strip_def isspace_def encode_utf8_def encode_char_def)
  moreover have len: "length [97, 7, 98::int] + 1 = 4" by simp
  have "pad_bytes [97, 7, 98] = [97, 7, 98] @ [EOS] @ replicate (padded_len 4 - 4) EMPTY"
    by (simp only: pad_bytes_shape len)
  ultimately have "line_bytes [97, 7, 98, 10] = [97, EMPTY, 98, EOS]"
    by (simp add: line_bytes_def padded_len_4 EMPTY_def)
  then show ?thesis by (simp add: EOS_def EMPTY_def)
qed

section \<open>Batches of a bucket\<close>

lemma length_pieces: "length (pieces ss xs) = length ss"
  by (induction ss arbitrary: xs) simp_all

lemma concat_pieces: "concat (pieces ss xs) = take (sum_list ss) xs"
proof (induction ss arbitrary: xs)
  case Nil
  then show ?case by simp
next
  case (Cons s ss)
  have "take s xs @ take (sum_list ss) (drop s xs) = take (s + sum_list ss) xs"
    by (simp add: take_add)
  with Cons.IH show ?case by simp
qed

lemma lengths_pieces:
  "sum_list ss \<le> length xs \<Longrightarrow> map length (pieces ss xs) = ss"
proof (induction ss arbitrary: xs)
  case Nil
  then show ?case by simp
next
  case (Cons s ss)
  then have "sum_list ss \<le> length (drop s xs)" by simp
  with Cons.IH have "map length (pieces ss (drop s xs)) = ss" .
  moreover from Cons.prems have "s \<le> length xs" by simp
  ultimately show ?case by simp
qed

lemma split_sizes_sum:
  assumes "0 < k"
  shows "sum_list (replicate (n mod k) (n div k + 1) @ replicate (k - n mod k) (n div k)) = n"
proof -
  have "n mod k < k" using assms by simp
  then have "n mod k * (n div k + 1) + (k - n mod k) * (n div k) = n mod k + k * (n div k)"
    by (simp add: algebra_simps diff_mult_distrib)
  then show ?thesis by (simp add: sum_list_replicate)
qed

lemma array_split_parts:
  assumes "0 < k"
  shows "\<exists>bs. array_split data k = Inr bs \<and> concat bs = data \<and> int (length bs) = k \<and>
           map length bs = replicate (length data mod nat k) (length data div nat k + 1)
                           @ replicate (nat k - length data mod nat k) (length data div nat k)"
proof -
  let ?n = "length data"
  let ?ss = "replicate (?n mod nat k) (?n div nat k + 1) @ replicate (nat k - ?n mod nat k) (?n div nat k)"
  have pos: "0 < nat k" using assms by simp
  have total: "sum_list ?ss = ?n"
    by (rule split_sizes_sum [OF pos])
  have "array_split data k = Inr (pieces ?ss data)"
    using assms by (simp add: array_split_def Let_def)
  moreover have "concat (pieces ?ss data) = data"
    by (simp only: concat_pieces total take_all_iff)
  moreover have "?n mod nat k < nat k" using pos by simp
  then have "int (length (pieces ?ss data)) = k"
    using assms by (simp add: length_pieces)
  moreover have "map length (pieces ?ss data) = ?ss"
    by (rule lengths_pieces) (simp only: total order_refl)
  ultimately show ?thesis by blast
qed

section \<open>Iteration in evaluation mode\<close>

lemma collect_Inr: "collect (map Inr bss) = Inr (concat bss)"
  by (induction bss) simp_all

lemma evaluation_batches_parts:
  assumes "bsz \<noteq> 0"
  shows "\<exists>bs. evaluation_batches bsz bucket = Inr bs \<and> concat bs = snd bucket \<and> bs \<noteq> [] \<and>
           (\<forall>b \<in> set bs. \<forall>b' \<in> set bs. length b \<le> length b' + 1)"
proof -
  define k where "k = max 1 (int (length (snd bucket)) div bsz)"
  define q where "q = length (snd bucket) div nat k"
  define e where "e = length (snd bucket) mod nat k"
  have pos: "0 < k" by (simp add: k_def)
  from array_split_parts [OF pos, of "snd bucket"] obtain bs where
    bs: "array_split (snd bucket) k = Inr bs" "concat bs = snd bucket" "int (length bs) = k"
      "map length bs = replicate e (q + 1) @ replicate (nat k - e) q"
    unfolding q_def e_def by blast
  have sizes: "length b = q \<or> length b = q + 1" if "b \<in> set bs" for b
  proof -
    from that have "length b \<in> set (map length bs)" by simp
    then show ?thesis by (auto simp add: bs(4))
  qed
  have "evaluation_batches bsz bucket = Inr bs"
    using assms bs(1) by (simp add: evaluation_batches_def k_def)
  moreover have "bs \<noteq> []"
    using bs(3) pos by auto
  moreover have "\<forall>b \<in> set bs. \<forall>b' \<in> set bs. length b \<le> length b' + 1"
  proof (intro ballI)
    fix b b'
    assume "b \<in> set bs" and "b' \<in> set bs"
    then have "length b = q \<or> length b = q + 1" and "length b' = q \<or> length b' = q + 1"
      by (simp_all only: sizes)
    then show "length b \<le> length b' + 1" by linarith
  qed
  ultimately show ?thesis
    using bs(2) by blast
qed

lemma evaluation_buckets:
  assumes "bsz \<noteq> 0"
  shows "\<exists>bss. map (evaluation_batches bsz) bks = map Inr bss \<and> map concat bss = map snd bks \<and>
           (\<forall>bs \<in> set bss. bs \<noteq> [] \<and> (\<forall>b \<in> set bs. \<forall>b' \<in> set bs. length b \<le> length b' + 1))"
proof (induction bks)
  case Nil
  then show ?case by simp
next
  case (Cons bucket bks)
  from evaluation_batches_parts [OF assms, of bucket] obtain bs where
    bs: "evaluation_batches bsz bucket = Inr bs" "concat bs = snd bucket" "bs \<noteq> []"
      "\<forall>b \<in> set bs. \<forall>b' \<in> set bs. length b \<le> length b' + 1"
    by blast
  from Cons.IH obtain bss where
    bss: "map (evaluation_batches bsz) bks = map Inr bss" "map concat bss = map snd bks"
      "\<forall>bs \<in> set bss. bs \<noteq> [] \<and> (\<forall>b \<in> set bs. \<forall>b' \<in> set bs. length b \<le> length b' + 1)"
    by blast
  have "map (evaluation_batches bsz) (bucket # bks) = map Inr (bs # bss)"
    by (simp add: bs(1) bss(1))
  moreover have "map concat (bs # bss) = map snd (bucket # bks)"
    by (simp add: bs(2) bss(2))
  moreover have "\<forall>bs \<in> set (bs # bss).
      bs \<noteq> [] \<and> (\<forall>b \<in> set bs. \<forall>b' \<in> set bs. length b \<le> length b' + 1)"
    using bs(3,4) bss(3) by simp
  ultimately show ?case by blast
qed

text \<open>Three lines, \<^verbatim>\<open>hi\<close>, \<^verbatim>\<open>yo\<close> and \<^verbatim>\<open>a\<close>, each with its line feed, and their buckets.\<close>

lemma line_bytes_examples:
  "line_bytes [104, 105, 10] = [104, 105, 0, 7]"
  "line_bytes [121, 111, 10] = [121, 111, 0, 7]"
  "line_bytes [97, 10] = [97, 0]"
  "line_bytes [98, 10] = [98, 0]"
proof -
  have c: "content_bytes [104, 105, 10] = [104, 105]" "content_bytes [121, 111, 10] = [121, 111]"
    "content_bytes [97, 10] = [97]" "content_bytes [98, 10] = [98]"
    by (simp_all add: content_bytes_def strip_def isspace_def encode_utf8_def encode_char_def)
  have l3: "length [a, b] + 1 = 3" and l2: "length [a] + 1 = 2" for a b :: int
    by simp_all
  have "pad_bytes [a, b] = [a, b] @ [EOS] @ replicate (padded_len 3 - 3) EMPTY" for a b
    by (simp only: pad_bytes_shape l3)
  then have p3: "pad_bytes [a, b] = [a, b, 0, 7]" for a b
    by (simp add: padded_len_3 EOS_def EMPTY_def)
  have "pad_bytes [a] = [a] @ [EOS] @ replicate (padded_len 2 - 2) EMPTY" for a
    by (simp only: pad_bytes_shape l2)
  then have p2: "pad_bytes [a] = [a, 0]" for a
    by (simp add: padded_len_2 EOS_def)
  show "line_bytes [104, 105, 10] = [104, 105, 0, 7]"
    "line_bytes [121, 111, 10] = [121, 111, 0, 7]"
    "line_bytes [97, 10] = [97, 0]"
    "line_bytes [98, 10] = [98, 0]"
    by (simp_all only: line_bytes_def c p3 p2)
qed

lemma lines_by_len_example:
  "lines_by_len [[104, 105, 10], [121, 111, 10], [97, 10]]
   = [(4, [[104, 105, 0, 7], [121, 111, 0, 7]]), (2, [[97, 0]])]"
  by (simp add: lines_by_len_def line_bytes_examples)

lemma lines_example:
  "lines (UTF8File_init id RandomState [[104, 105, 10], [121, 111, 10], [97, 10]] c seed)
   = [(4, [[104, 105, 0, 7], [121, 111, 0, 7]]), (2, [[97, 0]])]"
  by (simp add: UTF8File_init_def lines_by_len_example items_def)

lemma evaluation_batches_small:
  "evaluation_batches 1 (l, [r1, r2]) = Inr [[r1], [r2]]"
  "evaluation_batches 1 (l, [r1]) = Inr [[r1]]"
  by (simp_all add: evaluation_batches_def array_split_def numeral_eq_Suc)

lemma iter_epoch_lines:
  "lines self' = lines self \<Longrightarrow>
     iter_epoch order self' bsz evaluation g = iter_epoch order self bsz evaluation g"
  by (simp add: iter_epoch_def split: prod.splits sum.splits)

text \<open>
  Claim C9. Evaluation-mode iteration reads no random number: for a batch size other
  than zero, two loaders with the same buckets (as two loaders over the same file have,
  whatever their seeds) yield the same batches in the same order, whatever the states of
  the global generator, and leave that state as it is. The batches come bucket after
  bucket in the order of the dictionary; the batches of a bucket put together are the
  bucket, so no example is dropped or moved; no bucket yields an empty list of batches, and
  two batches of one bucket differ in size by one row at most.
\<close>

theorem evaluation_iteration:
  assumes "bsz \<noteq> 0" and "lines self' = lines self"
  shows "\<exists>bss. iter_epoch order self bsz True g = (Inr (concat bss), g)
           \<and> iter_epoch order self' bsz True g' = (Inr (concat bss), g')
           \<and> map concat bss = map snd (items order (lines self))
           \<and> (\<forall>bs \<in> set bss. bs \<noteq> [] \<and>
                 (\<forall>b \<in> set bs. \<forall>b' \<in> set bs. length b \<le> length b' + 1))"
proof -
  from evaluation_buckets [OF assms(1), of "items order (lines self)"] obtain bss where
    bss: "map (evaluation_batches bsz) (items order (lines self)) = map Inr bss"
      "map concat bss = map snd (items order (lines self))"
      "\<forall>bs \<in> set bss. bs \<noteq> [] \<and> (\<forall>b \<in> set bs. \<forall>b' \<in> set bs. length b \<le> length b' + 1)"
    by blast
  have "iter_epoch order self bsz True g = (Inr (concat bss), g)"
    by (simp add: iter_epoch_def bss(1) collect_Inr)
  moreover have "iter_epoch order self' bsz True g' = (Inr (concat bss), g')"
    by (simp add: iter_epoch_def assms(2) bss(1) collect_Inr)
  ultimately show ?thesis
    using bss(2,3) by blast
qed

theorem evaluation_iteration_witness:
  "fst (iter_epoch id
         (UTF8File_init id (\<lambda>seed i. 0) [[104, 105, 10], [121, 111, 10], [97, 10]] False (Some 1111))
         1 True (\<lambda>i. 0))
   = fst (iter_epoch id
         (UTF8File_init id (\<lambda>seed i. 0) [[104, 105, 10], [121, 111, 10], [97, 10]] False None)
         1 True (\<lambda>i. i))
   \<and> fst (iter_epoch id
         (UTF8File_init id (\<lambda>seed i. 0) [[104, 105, 10], [121, 111, 10], [97, 10]] False None)
         1 True (\<lambda>i. i))
     = Inr [[[104, 105, 0, 7]], [[121, 111, 0, 7]], [[97, 0]]]"
proof -
  let ?file = "[[104, 105, 10], [121, 111, 10], [97, 10::nat]]"
  let ?a = "UTF8File_init id (\<lambda>seed i. 0) ?file False (Some 1111)"
  let ?b = "UTF8File_init id (\<lambda>seed i. 0) ?file False None"
  have "(1::int) \<noteq> 0" by simp
  moreover have "lines ?b = lines ?a"
    by (simp only: lines_example)
  ultimately obtain bss where
    "iter_epoch id ?a 1 True (\<lambda>i. 0) = (Inr (concat bss), \<lambda>i. 0)"
    "iter_epoch id ?b 1 True (\<lambda>i. i) = (Inr (concat bss), \<lambda>i. i)"
    using evaluation_iteration [of 1 ?b ?a id "\<lambda>i. 0" "\<lambda>i. i"] by blast
  then have "fst (iter_epoch id ?a 1 True (\<lambda>i. 0)) = fst (iter_epoch id ?b 1 True (\<lambda>i. i))"
    by simp
  moreover have "fst (iter_epoch id ?b 1 True (\<lambda>i. i))
      = Inr [[[104, 105, 0, 7]], [[121, 111, 0, 7]], [[97, 0]]]"
    by (simp add: iter_epoch_def lines_example items_def evaluation_batches_small)
  ultimately show ?thesis by simp
qed

section \<open>Iteration in training mode\<close>

lemma shuffle_two:
  "shuffle [a, b] g = (if g 0 mod 2 = 0 then [b, a] else [a, b], \<lambda>i. g (Suc i))"
proof -
  define j where "j = g 0 mod 2"
  have j: "j = 0 \<or> j = Suc 0"
    unfolding j_def by presburger
  have "rk_interval (Suc 0) g = (j, \<lambda>i. g (Suc i))"
    by (simp add: rk_interval_def j_def numeral_2_eq_2)
  then have "shuffle [a, b] g = ([a, b][Suc 0 := [a, b] ! j, j := [a, b] ! Suc 0], \<lambda>i. g (Suc i))"
    by (simp add: shuffle_def)
  also have "[a, b][Suc 0 := [a, b] ! j, j := [a, b] ! Suc 0] = (if j = 0 then [b, a] else [a, b])"
    using j by auto
  finally show ?thesis
    by (simp only: j_def)
qed

lemma permutation_two:
  "permutation (Suc (Suc 0)) g
   = (if g 0 mod 2 = 0 then [Suc 0, 0] else [0, Suc 0], \<lambda>i. g (Suc i))"
proof -
  have "[0..<Suc (Suc 0)] = [0, Suc 0]" by (simp add: upt_rec)
  then show ?thesis by (simp only: permutation_def shuffle_two)
qed

lemma split_two: "split [a, b] 2 = Inr [[a], [b]]"
  by (simp add: split_def array_split_def numeral_eq_Suc)

lemma training_inds_two:
  "training_inds 1 (l, [r1, r2]) g
   = (Inr (if g 0 mod 2 = 0 then [(l, [Suc 0]), (l, [0])] else [(l, [0]), (l, [Suc 0])]),
      \<lambda>i. g (Suc i))"
  by (simp add: training_inds_def permutation_two split_two)

lemma take_rows_two:
  "take_rows [(l, [r1, r2])] (l, [0]) = Inr [[r1]]"
  "take_rows [(l, [r1, r2])] (l, [Suc 0]) = Inr [[r2]]"
  by (simp_all add: take_rows_def)

lemma training_two_rows:
  assumes "lines self = [(l, [r1, r2])]"
  shows "fst (iter_epoch id self 1 False g)
   = Inr (if (g 0 mod 2 = 0) = (g 1 mod 2 = 0) then [[r1], [r2]] else [[r2], [r1]])"
proof -
  have "items id (lines self) = [(l, [r1, r2])]"
    by (simp add: assms items_def)
  then show ?thesis
    by (simp add: iter_epoch_def training_inds_two shuffle_two assms take_rows_two)
qed

lemma lines_by_len_ab:
  "lines_by_len [[97, 10], [98, 10]] = [(2, [[97, 0], [98, 0]])]"
  by (simp add: lines_by_len_def line_bytes_examples)

lemma lines_ab:
  "lines (UTF8File_init id RandomState [[97, 10], [98, 10]] c seed) = [(2, [[97, 0], [98, 0]])]"
  by (simp add: UTF8File_init_def lines_by_len_ab items_def)

text \<open>
  Claim C8. The claim says that the batch order of training is a function of the seed that
  the loader is constructed with. In \<^verbatim>\<open>byte.py\<close> the generator \<^verbatim>\<open>self.rng\<close> made from that seed
  is never read: \<^verbatim>\<open>iter_epoch\<close> draws from the global generator \<^verbatim>\<open>np.random\<close>, which the program
  never seeds. So the seed of the loader has no effect on the batches, and two loaders over
  the same file with the same seed yield different orders from different states of the
  global generator: here the file of the two lines \<^verbatim>\<open>a\<close> and \<^verbatim>\<open>b\<close>, with batch size 1.
\<close>

theorem training_order_ignores_seed:
  "iter_epoch order (UTF8File_init order RandomState file c seed) bsz False g
     = iter_epoch order (UTF8File_init order RandomState file c seed') bsz False g
   \<and> fst (iter_epoch id (UTF8File_init id RandomState [[97, 10], [98, 10]] c (Some 1111)) 1 False
            (\<lambda>i. 0))
     = Inr [[[97, 0]], [[98, 0]]]
   \<and> fst (iter_epoch id (UTF8File_init id RandomState [[97, 10], [98, 10]] c (Some 1111)) 1 False
            (\<lambda>i. if i = 0 then 1 else 0))
     = Inr [[[98, 0]], [[97, 0]]]"
proof (intro conjI)
  show "iter_epoch order (UTF8File_init order RandomState file c seed) bsz False g
     = iter_epoch order (UTF8File_init order RandomState file c seed') bsz False g"
    by (rule iter_epoch_lines) (simp add: UTF8File_init_def)
qed (simp_all add: training_two_rows [OF lines_ab])

section \<open>Rendering the predictions\<close>

lemma chr_all_in_range:
  "list_all (\<lambda>c. 0 \<le> c \<and> c < 256) cs \<Longrightarrow> chr_all cs = Inr (map char_of cs)"
  by (induction cs) (simp_all add: chr_def)

lemma truncate_at_EOS:
  "(if EOS \<in> set pred then take (index pred EOS) pred else pred) = takeWhile (\<lambda>c. c \<noteq> EOS) pred"
proof (cases "EOS \<in> set pred")
  case True
  then show ?thesis
    using takeWhile_eq_take [of "\<lambda>c. c \<noteq> EOS" pred] by (simp add: index_def)
next
  case False
  then have "\<forall>c \<in> set pred. c \<noteq> EOS" by blast
  then have eq: "takeWhile (\<lambda>c. c \<noteq> EOS) pred = pred"
    by (simp only: takeWhile_eq_all_conv)
  show ?thesis by (subst eq) (simp add: False)
qed

lemma render_in_range:
  assumes "list_all (\<lambda>c. 0 \<le> c \<and> c < 256) (takeWhile (\<lambda>c. c \<noteq> EOS) pred)"
  shows "render pred = Inr (repr (map char_of (takeWhile (\<lambda>c. c \<noteq> EOS) pred)))"
  unfolding render_def truncate_at_EOS Let_def
  by (simp add: chr_all_in_range [OF assms])

lemma render_all_in_range:
  "list_all (\<lambda>pred. list_all (\<lambda>c. 0 \<le> c \<and> c < 256) (takeWhile (\<lambda>c. c \<noteq> EOS) pred)) preds \<Longrightarrow>
   render_all preds = Inr (map (\<lambda>pred. repr (map char_of (takeWhile (\<lambda>c. c \<noteq> EOS) pred))) preds)"
  by (induction preds) (simp_all add: render_in_range)

lemma render_HI: "render [72, 73, 0, 7] = Inr (CHR 0x27 # ''HI'' @ [CHR 0x27])"
  by code_simp

lemma max_dim1_example:
  "max_dim1 [[[0, 0, 1, 0], [1, 0, 0, 0], [0, 1, 0, 0], [0, 0, 0, 1]]] = [[1, 2, 0, 3]]"
  by code_simp

lemma max_dim1_example2:
  "max_dim1 [[[0, 1, 1, 1], [0, 0, 0, 0], [0, 0, 0, 0], [1, 0, 0, 0]]] = [[3, 0, 0, 0]]"
  by code_simp

text \<open>The whole stream: the rendered sequences of all the batches, in their order.\<close>

lemma try_on_stream:
  assumes "map net batches = map Inr tgts"
    and "list_all (\<lambda>tgt. list_all (\<lambda>pred. list_all (\<lambda>c. 0 \<le> c \<and> c < 256)
           (takeWhile (\<lambda>c. c \<noteq> EOS) pred)) (max_dim1 tgt)) tgts"
  shows "try_on net batches
         = Inr (concat (map (\<lambda>tgt. map (\<lambda>pred. repr (map char_of (takeWhile (\<lambda>c. c \<noteq> EOS) pred)))
                                   (max_dim1 tgt)) tgts))"
  using assms
proof (induction batches arbitrary: tgts)
  case Nil
  then show ?case by simp
next
  case (Cons src rest)
  then obtain tgt more where tgts: "tgts = tgt # more"
    by (cases tgts) auto
  with Cons.prems have "net src = Inr tgt" and "map net rest = map Inr more"
    by simp_all
  moreover from Cons.prems(2) have
    "list_all (\<lambda>pred. list_all (\<lambda>c. 0 \<le> c \<and> c < 256) (takeWhile (\<lambda>c. c \<noteq> EOS) pred))
       (max_dim1 tgt)"
    and "list_all (\<lambda>tgt. list_all (\<lambda>pred. list_all (\<lambda>c. 0 \<le> c \<and> c < 256)
           (takeWhile (\<lambda>c. c \<noteq> EOS) pred)) (max_dim1 tgt)) more"
    by (simp_all add: tgts)
  ultimately show ?case
    by (simp add: tgts render_all_in_range Cons.IH)
qed

text \<open>
  Claim C4, as amended. For every sequence of every batch of the stream, \<^verbatim>\<open>try_on\<close> takes the
  channel with the greatest score at every position, cuts the sequence at the first predicted
  EOS (or keeps all of it when no EOS is predicted), and renders the bytes that are left as
  the \<^verbatim>\<open>repr\<close> of their string: the text in quotes, with the bytes that do not print
  escaped; the result lists the rendered sequences of all batches in their order. For the
  predicted sequence 72, 73, 0, 7 the rendered string is \<^verbatim>\<open>'HI'\<close>, the two letters between
  single quotes; the PAD after the EOS is cut off.
\<close>

theorem try_on_rendering:
  assumes "map net batches = map Inr tgts"
    and "list_all (\<lambda>tgt. list_all (\<lambda>pred. list_all (\<lambda>c. 0 \<le> c \<and> c < 256)
           (takeWhile (\<lambda>c. c \<noteq> EOS) pred)) (max_dim1 tgt)) tgts"
  shows "try_on net batches
         = Inr (concat (map (\<lambda>tgt. map (\<lambda>pred. repr (map char_of (takeWhile (\<lambda>c. c \<noteq> EOS) pred)))
                                   (max_dim1 tgt)) tgts))
       \<and> render [72, 73, 0, 7] = Inr (CHR 0x27 # ''HI'' @ [CHR 0x27])"
  using try_on_stream [OF assms] render_HI by (rule conjI)

text \<open>
  A stream of two batches: the predictions 1, 2, 0, 3 and 3, 0, 0, 0 are cut at the EOS and
  rendered as \<^verbatim>\<open>'\x01\x02'\<close> and \<^verbatim>\<open>'\x03'\<close>.
\<close>

theorem try_on_rendering_witness:
  "try_on (\<lambda>src. if src = [[1, 2, 0, 7]]
                 then Inr [[[0, 0, 1, 0], [1, 0, 0, 0], [0, 1, 0, 0], [0, 0, 0, 1]]]
                 else Inr [[[0, 1, 1, 1], [0, 0, 0, 0], [0, 0, 0, 0], [1, 0, 0, 0]]])
     [[[1, 2, 0, 7]], [[3, 0, 7, 7]]]
   = Inr [[CHR 0x27, CHR 0x5C, CHR ''x'', CHR ''0'', CHR ''1'', CHR 0x5C, CHR ''x'', CHR ''0'',
           CHR ''2'', CHR 0x27],
          [CHR 0x27, CHR 0x5C, CHR ''x'', CHR ''0'', CHR ''3'', CHR 0x27]]"
proof -
  let ?a = "[[[0, 0, 1, 0], [1, 0, 0, 0], [0, 1, 0, 0], [0, 0, 0, 1]]] :: scores"
  let ?b = "[[[0, 1, 1, 1], [0, 0, 0, 0], [0, 0, 0, 0], [1, 0, 0, 0]]] :: scores"
  let ?net = "\<lambda>src :: batch. if src = [[1, 2, 0, 7]] then (Inr ?a :: error + scores) else Inr ?b"
  have nets: "map ?net [[[1, 2, 0, 7]], [[3, 0, 7, 7]]] = map Inr [?a, ?b]"
    by simp
  have "list_all (\<lambda>c. 0 \<le> c \<and> c < 256) (takeWhile (\<lambda>c. c \<noteq> EOS) [1, 2, 0, 3])"
    and "list_all (\<lambda>c. 0 \<le> c \<and> c < 256) (takeWhile (\<lambda>c. c \<noteq> EOS) [3, 0, 0, 0])"
    by (simp_all add: EOS_def)
  then have ok: "list_all (\<lambda>tgt. list_all (\<lambda>pred. list_all (\<lambda>c. 0 \<le> c \<and> c < 256)
           (takeWhile (\<lambda>c. c \<noteq> EOS) pred)) (max_dim1 tgt)) [?a, ?b]"
    by (simp only: list.pred_inject max_dim1_example max_dim1_example2)
  have "try_on ?net [[[1, 2, 0, 7]], [[3, 0, 7, 7]]]
         = Inr (concat (map (\<lambda>tgt. map (\<lambda>pred. repr (map char_of (takeWhile (\<lambda>c. c \<noteq> EOS) pred)))
                                   (max_dim1 tgt)) [?a, ?b]))"
    by (rule conjunct1 [OF try_on_rendering [OF nets ok]])
  also have "\<dots> = Inr (concat (map (map (\<lambda>pred. repr (map char_of (takeWhile (\<lambda>c. c \<noteq> EOS) pred))))
                                   [[[1, 2, 0, 3]], [[3, 0, 0, 0]]]))"
    by (simp only: list.map max_dim1_example max_dim1_example2)
  also have "\<dots> = Inr [[CHR 0x27, CHR 0x5C, CHR ''x'', CHR ''0'', CHR ''1'', CHR 0x5C, CHR ''x'',
           CHR ''0'', CHR ''2'', CHR 0x27],
          [CHR 0x27, CHR 0x5C, CHR ''x'', CHR ''0'', CHR ''3'', CHR 0x27]]"
    by code_simp
  finally show ?thesis .
qed

text \<open>
  The claim as it is written gives the two letters alone as the rendered string; the
  string that \<^verbatim>\<open>try_on\<close> appends has four characters.
\<close>

theorem render_HI_counterexample: "render [72, 73, 0, 7] \<noteq> Inr ''HI''"
  by code_simp

section \<open>Padding in the loss and in the error counts\<close>

lemma concat_max_dim1: "concat (max_dim1 tgt) = map argmax (concat (map transpose tgt))"
  by (simp add: max_dim1_def map_concat comp_def)

lemma zip_nth:
  "length xs = length ts \<Longrightarrow> zip xs ts = map (\<lambda>i. (xs ! i, ts ! i)) [0..<length ts]"
  by (rule nth_equalityI) simp_all

lemma filter_zip_positions:
  assumes "length xs = length ts"
  shows "filter (\<lambda>xt. snd xt \<noteq> EMPTY) (zip xs ts) = map (\<lambda>i. (xs ! i, ts ! i)) (spec_non_pad ts)"
  by (simp add: zip_nth [OF assms] filter_map comp_def spec_non_pad_def)

lemma spec_non_pad_bound: "i \<in> set (spec_non_pad ts) \<Longrightarrow> i < length ts \<and> ts ! i \<noteq> EMPTY"
  by (simp add: spec_non_pad_def)

lemma fits_lengths:
  assumes "fits tgt src"
  shows "length (concat (map transpose tgt)) = length (concat src)"
    and "map length (max_dim1 tgt) = map length src"
proof -
  from assms have m: "map (\<lambda>t. length (transpose t)) tgt = map length src"
    by (simp add: fits_def)
  have "length (concat (map transpose tgt)) = sum_list (map (\<lambda>t. length (transpose t)) tgt)"
    by (simp add: length_concat comp_def)
  also have "\<dots> = length (concat src)"
    by (simp only: m length_concat)
  finally show "length (concat (map transpose tgt)) = length (concat src)" .
  show "map length (max_dim1 tgt) = map length src"
    using m by (simp add: max_dim1_def comp_def)
qed

text \<open>The loss of the criterion is the mean over the positions outside the padding.\<close>

lemma criterion_spec:
  assumes "length input = length target"
    and "list_all (\<lambda>i. 0 \<le> target ! i \<and> target ! i < int (length (input ! i)))
           (spec_non_pad target)"
  shows "criterion input target = Inr (spec_loss input target)"
proof -
  have kept: "filter (\<lambda>xt. snd xt \<noteq> EMPTY) (zip input target)
      = map (\<lambda>i. (input ! i, target ! i)) (spec_non_pad target)"
    using assms(1) by (rule filter_zip_positions)
  have classes: "\<not> list_ex (\<lambda>xt. snd xt < 0 \<or> int (length (fst xt)) \<le> snd xt)
      (map (\<lambda>i. (input ! i, target ! i)) (spec_non_pad target))"
    using assms(2) by (auto simp add: list_ex_iff list_all_iff)
  show ?thesis
    unfolding criterion_def CrossEntropyLoss_def kept Let_def
    using assms(1) classes
    by (simp add: spec_loss_def spec_cross_entropy_def comp_def)
qed

text \<open>Deleting the positions whose target is PAD leaves the loss as it is.\<close>

lemma criterion_drop_pad:
  assumes "length input = length target"
  shows "criterion input target
       = criterion (map ((!) input) (spec_non_pad target)) (map ((!) target) (spec_non_pad target))"
proof -
  let ?ps = "spec_non_pad target"
  have kept: "filter (\<lambda>xt. snd xt \<noteq> EMPTY) (zip input target)
      = map (\<lambda>i. (input ! i, target ! i)) ?ps"
    using assms by (rule filter_zip_positions)
  have "zip (map ((!) input) ?ps) (map ((!) target) ?ps) = map (\<lambda>i. (input ! i, target ! i)) ?ps"
    by (simp add: zip_map_map zip_same_conv_map)
  moreover have "filter (\<lambda>xt. snd xt \<noteq> EMPTY) (map (\<lambda>i. (input ! i, target ! i)) ?ps)
      = map (\<lambda>i. (input ! i, target ! i)) ?ps"
    by (simp add: filter_map comp_def filter_id_conv spec_non_pad_bound)
  ultimately have kept': "filter (\<lambda>xt. snd xt \<noteq> EMPTY)
        (zip (map ((!) input) ?ps) (map ((!) target) ?ps))
      = map (\<lambda>i. (input ! i, target ! i)) ?ps"
    by simp
  show ?thesis
    unfolding criterion_def CrossEntropyLoss_def kept kept'
    using assms by simp
qed

lemma wrong_spec:
  assumes "length (concat (map transpose tgt)) = length (concat src)"
  shows "wrong (max_dim1 tgt) src = spec_batch_errors tgt src"
proof -
  let ?rows = "concat (map transpose tgt)" and ?ts = "concat src"
  have len: "length (map argmax ?rows) = length ?ts"
    using assms by simp
  have nth: "i \<in> set (spec_non_pad ?ts) \<Longrightarrow> map argmax ?rows ! i = argmax (?rows ! i)" for i
    using assms spec_non_pad_bound [of i ?ts] by simp
  have "wrong (max_dim1 tgt) src
      = length (filter (\<lambda>i. map argmax ?rows ! i \<noteq> ?ts ! i) (spec_non_pad ?ts))"
    unfolding wrong_def masked_def concat_max_dim1 filter_zip_positions [OF len]
    by (simp add: filter_map comp_def)
  also have "\<dots> = length (filter (\<lambda>i. argmax (?rows ! i) \<noteq> ?ts ! i) (spec_non_pad ?ts))"
    by (rule arg_cong [where f = length], rule filter_cong) (simp_all add: nth)
  finally show ?thesis
    by (simp add: spec_batch_errors_def spec_errors_def)
qed

lemma mask_sum_spec: "mask_sum src = spec_batch_positions src"
proof -
  let ?ts = "concat src"
  have "filter (\<lambda>s. s \<noteq> EMPTY) (map ((!) ?ts) [0..<length ?ts])
      = map ((!) ?ts) (filter (\<lambda>i. ?ts ! i \<noteq> EMPTY) [0..<length ?ts])"
    by (simp add: filter_map comp_def)
  then have "length (filter (\<lambda>s. s \<noteq> EMPTY) ?ts) = length (spec_non_pad ?ts)"
    by (simp add: map_nth spec_non_pad_def)
  then show ?thesis
    by (simp add: mask_sum_def spec_batch_positions_def)
qed

text \<open>The loss and the counts that both passes compute for a batch.\<close>

lemma batch_metrics_spec:
  assumes "net src = Inr tgt" and "fits tgt src"
  shows "batch_metrics net src
       = Inr (spec_batch_loss tgt src, spec_batch_errors tgt src, spec_batch_positions src)"
proof -
  note len = fits_lengths [OF assms(2)]
  have "list_all (\<lambda>i. 0 \<le> concat src ! i
          \<and> concat src ! i < int (length (concat (map transpose tgt) ! i)))
       (spec_non_pad (concat src))"
    using assms(2) by (simp add: fits_def)
  with len(1) have "batch_loss tgt src = Inr (spec_batch_loss tgt src)"
    unfolding batch_loss_def spec_batch_loss_def by (rule criterion_spec)
  then show ?thesis
    by (simp add: batch_metrics_def assms(1) len(2) wrong_spec [OF len(1)] mask_sum_spec)
qed

text \<open>Scores that agree at the positions outside the padding give the same loss and counts.\<close>

lemma spec_agree:
  assumes "list_all (\<lambda>i. input' ! i = input ! i) (spec_non_pad target)"
  shows "spec_loss input' target = spec_loss input target"
    and "spec_errors input' target = spec_errors input target"
proof -
  have eq: "i \<in> set (spec_non_pad target) \<Longrightarrow> input' ! i = input ! i" for i
    using assms by (simp add: list_all_iff)
  have "map (\<lambda>i. spec_cross_entropy (input' ! i) (target ! i)) (spec_non_pad target)
      = map (\<lambda>i. spec_cross_entropy (input ! i) (target ! i)) (spec_non_pad target)"
    by (rule map_cong) (simp_all add: eq)
  then show "spec_loss input' target = spec_loss input target"
    by (simp only: spec_loss_def)
  have "filter (\<lambda>i. argmax (input' ! i) \<noteq> target ! i) (spec_non_pad target)
      = filter (\<lambda>i. argmax (input ! i) \<noteq> target ! i) (spec_non_pad target)"
    by (rule filter_cong) (simp_all add: eq)
  then show "spec_errors input' target = spec_errors input target"
    by (simp only: spec_errors_def)
qed

lemma spec_all_pad:
  assumes "list_all (\<lambda>s. s = EMPTY) target"
  shows "spec_non_pad target = []"
  using assms by (simp add: spec_non_pad_def filter_empty_conv list_all_length)

text \<open>
  Claim C6. Let the network give the scores \<open>tgt\<close> on the batch \<open>src\<close>, fitting it. The
  loss and the counts of the batch, as \<^verbatim>\<open>train_on\<close> and \<^verbatim>\<open>eval_on\<close> both compute them, are
  taken over the positions whose target is not PAD: the loss is the mean of the
  cross-entropy over these positions (zero when there is none), the errors are counted
  among them, and the error rate divides by their number. Deleting the positions whose
  target is PAD from the scores and the targets leaves the loss as it is. \<^verbatim>\<open>train_on\<close>
  reports this loss and 100 times the errors over the number of these positions for the
  batch; \<^verbatim>\<open>eval_on\<close> adds this loss, these errors and this number to its totals, and on
  the stream of this batch alone returns this loss and 100 minus this rate. Scores
  that differ at positions whose target is PAD only give the same loss and counts, and
  when all targets of the batch are PAD the loss is zero and so are both counts.
\<close>

theorem pad_positions_ignored:
  assumes "net params src = Inr tgt" and "fits tgt src"
  shows "batch_metrics (net params) src
           = Inr (spec_batch_loss tgt src, spec_batch_errors tgt src, spec_batch_positions src)
       \<and> batch_loss tgt src
           = criterion (map ((!) (concat (map transpose tgt))) (spec_non_pad (concat src)))
               (map ((!) (concat src)) (spec_non_pad (concat src)))
       \<and> train_on net step params (src # rest)
           = (if spec_batch_positions src = 0 then Inl ZeroDivisionError
              else and_then (train_on net step (step params src) rest) (\<lambda>r.
                     case r of (losses, rates, params') \<Rightarrow>
                       Inr (spec_batch_loss tgt src # losses,
                            100 * real (spec_batch_errors tgt src)
                              / real (spec_batch_positions src) # rates,
                            params')))
       \<and> eval_loop (net params) st (src # rest)
           = eval_loop (net params)
               \<lparr>errs = errs st + spec_batch_errors tgt src,
                samples = samples st + spec_batch_positions src,
                total_loss = add_loss (total_loss st) (spec_batch_loss tgt src),
                batch_cnt = batch_cnt st + 1\<rparr> rest
       \<and> eval_on (net params) [src]
           = (if spec_batch_positions src = 0 then Inl ZeroDivisionError
              else Inr \<lparr>loss = spec_batch_loss tgt src,
                        acc = 100 - 100 * real (spec_batch_errors tgt src)
                                        / real (spec_batch_positions src)\<rparr>)
       \<and> (net params' src = Inr tgt' \<and> fits tgt' src
            \<and> list_all (\<lambda>i. concat (map transpose tgt') ! i = concat (map transpose tgt) ! i)
                (spec_non_pad (concat src)) \<longrightarrow>
            batch_metrics (net params') src = batch_metrics (net params) src)
       \<and> (list_all (\<lambda>s. s = EMPTY) (concat src) \<longrightarrow>
            batch_metrics (net params) src = Inr (0, 0, 0))"
proof -
  note m = batch_metrics_spec [of "net params" src tgt, OF assms]
  have drop: "batch_loss tgt src
           = criterion (map ((!) (concat (map transpose tgt))) (spec_non_pad (concat src)))
               (map ((!) (concat src)) (spec_non_pad (concat src)))"
    unfolding batch_loss_def using fits_lengths(1) [OF assms(2)] by (rule criterion_drop_pad)
  have train: "train_on net step params (src # rest)
           = (if spec_batch_positions src = 0 then Inl ZeroDivisionError
              else and_then (train_on net step (step params src) rest) (\<lambda>r.
                     case r of (losses, rates, params') \<Rightarrow>
                       Inr (spec_batch_loss tgt src # losses,
                            100 * real (spec_batch_errors tgt src)
                              / real (spec_batch_positions src) # rates,
                            params')))"
    by (simp add: m)
  have eval: "eval_loop (net params) st (src # rest)
           = eval_loop (net params)
               \<lparr>errs = errs st + spec_batch_errors tgt src,
                samples = samples st + spec_batch_positions src,
                total_loss = add_loss (total_loss st) (spec_batch_loss tgt src),
                batch_cnt = batch_cnt st + 1\<rparr> rest"
    by (simp add: m)
  have whole: "eval_on (net params) [src]
           = (if spec_batch_positions src = 0 then Inl ZeroDivisionError
              else Inr \<lparr>loss = spec_batch_loss tgt src,
                        acc = 100 - 100 * real (spec_batch_errors tgt src)
                                        / real (spec_batch_positions src)\<rparr>)"
    by (simp add: eval_on_def m eval_result_def add_loss_def)
  have agree: "batch_metrics (net params') src = batch_metrics (net params) src"
    if h: "net params' src = Inr tgt' \<and> fits tgt' src
            \<and> list_all (\<lambda>i. concat (map transpose tgt') ! i = concat (map transpose tgt) ! i)
                (spec_non_pad (concat src))"
  proof -
    from h have "net params' src = Inr tgt'" and "fits tgt' src"
      by simp_all
    then have "batch_metrics (net params') src
        = Inr (spec_batch_loss tgt' src, spec_batch_errors tgt' src, spec_batch_positions src)"
      by (rule batch_metrics_spec [of "net params'" src tgt'])
    moreover from h have "spec_batch_loss tgt' src = spec_batch_loss tgt src"
      and "spec_batch_errors tgt' src = spec_batch_errors tgt src"
      unfolding spec_batch_loss_def spec_batch_errors_def
      by (simp_all add: spec_agree)
    ultimately show ?thesis by (simp add: m)
  qed
  have pad: "batch_metrics (net params) src = Inr (0, 0, 0)"
    if "list_all (\<lambda>s. s = EMPTY) (concat src)"
    using spec_all_pad [OF that]
    by (simp add: m spec_batch_loss_def spec_batch_errors_def spec_batch_positions_def
        spec_loss_def spec_errors_def)
  from m drop train eval whole agree pad show ?thesis by blast
qed

text \<open>
  A row \<open>1, EOS, PAD, PAD\<close> over two classes, and two outputs that differ at the two PAD
  positions only. The scores of the two positions that count are equal, so that the loss is
  \<open>ln 2\<close> (over all four positions the mean would be another number); the byte 0 is
  predicted, which is wrong at the first position: one error in two positions.
\<close>

lemma witness_scores:
  "concat (map transpose [[[0, 0, 5, 5], [0, 0, 5, 5 :: real]]]) = [[0, 0], [0, 0], [5, 5], [5, 5]]"
  "concat (map transpose [[[0, 0, 9, - 3], [0, 0, - 2, 4 :: real]]])
   = [[0, 0], [0, 0], [9, - 2], [- 3, 4]]"
  "spec_non_pad [1, 0, 7, 7] = [0, 1]"
  by code_simp+

lemma witness_fits:
  "fits [[[0, 0, 5, 5], [0, 0, 5, 5]]] [[1, 0, 7, 7]]"
  "fits [[[0, 0, 9, - 3], [0, 0, - 2, 4]]] [[1, 0, 7, 7]]"
  by code_simp+

lemma witness_metrics:
  "spec_batch_loss [[[0, 0, 5, 5], [0, 0, 5, 5]]] [[1, 0, 7, 7]] = ln 2"
  "spec_batch_errors [[[0, 0, 5, 5], [0, 0, 5, 5]]] [[1, 0, 7, 7]] = 1"
  "spec_batch_positions [[1, 0, 7, 7]] = 2"
  by (simp_all add: spec_batch_loss_def spec_batch_errors_def spec_batch_positions_def
      spec_loss_def spec_errors_def spec_cross_entropy_def witness_scores argmax_def)

theorem pad_positions_ignored_witness:
  "batch_metrics (\<lambda>src. Inr [[[0, 0, 5, 5], [0, 0, 5, 5]]]) [[1, 0, 7, 7]] = Inr (ln 2, 1, 2)
   \<and> batch_metrics (\<lambda>src. Inr [[[0, 0, 9, - 3], [0, 0, - 2, 4]]]) [[1, 0, 7, 7]]
     = Inr (ln 2, 1, 2)
   \<and> train_on (\<lambda>p src. Inr (if p then [[[0, 0, 5, 5], [0, 0, 5, 5]]]
                             else [[[0, 0, 9, - 3], [0, 0, - 2, 4]]]))
       (\<lambda>p src. p) True [[[1, 0, 7, 7]]]
     = Inr ([ln 2], [50], True)
   \<and> eval_on (\<lambda>src. Inr [[[0, 0, 5, 5], [0, 0, 5, 5]]]) [[[1, 0, 7, 7]]]
     = Inr \<lparr>loss = ln 2, acc = 50\<rparr>"
proof -
  let ?a = "[[[0, 0, 5, 5], [0, 0, 5, 5]]] :: scores"
  let ?b = "[[[0, 0, 9, - 3], [0, 0, - 2, 4]]] :: scores"
  let ?src = "[[1, 0, 7, 7]] :: batch"
  let ?net = "\<lambda>(p :: bool) (src :: batch). (Inr (if p then ?a else ?b) :: error + scores)"
  have a: "?net True ?src = Inr ?a" and b: "?net False ?src = Inr ?b"
    by simp_all
  have agree: "list_all (\<lambda>i. concat (map transpose ?b) ! i = concat (map transpose ?a) ! i)
      (spec_non_pad (concat ?src))"
    by (simp add: witness_scores)
  note t = pad_positions_ignored [of ?net True ?src ?a "\<lambda>p src. p" "[]" _ False ?b,
      OF a witness_fits(1)]
  from t have m: "batch_metrics (?net True) ?src = Inr (ln 2, 1, 2)"
    by (simp only: witness_metrics)
  from t b witness_fits(2) agree
  have "batch_metrics (?net False) ?src = batch_metrics (?net True) ?src"
    by blast
  with m have m': "batch_metrics (?net False) ?src = Inr (ln 2, 1, 2)"
    by simp
  from t have "train_on ?net (\<lambda>p src. p) True [?src] = Inr ([ln 2], [50], True)"
    by (simp add: witness_metrics)
  moreover from t have "eval_on (?net True) [?src] = Inr \<lparr>loss = ln 2, acc = 50\<rparr>"
    by (simp add: witness_metrics)
  ultimately show ?thesis using m m' by simp
qed

section \<open>The evaluation pass\<close>

lemma foldl_add_loss_Variable:
  "foldl add_loss (Variable t) xs = Variable (t + sum_list xs)"
  by (induction xs arbitrary: t) (simp_all add: add_loss_def add.assoc)

lemma foldl_add_loss_PyInt:
  "xs \<noteq> [] \<Longrightarrow> foldl add_loss (PyInt 0) xs = Variable (sum_list xs)"
  by (cases xs) (simp_all add: add_loss_def foldl_add_loss_Variable)

lemma eval_loop_all:
  assumes "map (batch_metrics net) batches = map Inr ms"
  shows "eval_loop net st batches
       = Inr \<lparr>errs = errs st + sum_list (map (\<lambda>m. fst (snd m)) ms),
              samples = samples st + sum_list (map (\<lambda>m. snd (snd m)) ms),
              total_loss = foldl add_loss (total_loss st) (map fst ms),
              batch_cnt = batch_cnt st + length ms\<rparr>"
  using assms
proof (induction batches arbitrary: st ms)
  case Nil
  then show ?case by simp
next
  case (Cons src rest)
  then obtain m ms' where ms: "ms = m # ms'"
    by (cases ms) auto
  with Cons.prems have m: "batch_metrics net src = Inr m"
    and rest: "map (batch_metrics net) rest = map Inr ms'"
    by simp_all
  obtain l n_wrong n_mask where parts: "m = (l, n_wrong, n_mask)"
    by (cases m) auto
  show ?case
    by (simp add: m parts ms Cons.IH [OF rest] add.assoc)
qed

lemma batch_metrics_mask_sum:
  "batch_metrics net src = Inr m \<Longrightarrow> snd (snd m) = mask_sum src"
  by (auto simp add: batch_metrics_def and_then_def Let_def split: sum.splits if_splits)

lemma metrics_mask_sums:
  "map (batch_metrics net) batches = map Inr ms \<Longrightarrow>
     map (\<lambda>m. snd (snd m)) ms = map mask_sum batches"
proof (induction batches arbitrary: ms)
  case Nil
  then show ?case by simp
next
  case (Cons src rest)
  then obtain m ms' where ms: "ms = m # ms'"
    by (cases ms) auto
  with Cons.prems have "batch_metrics net src = Inr m"
    and "map (batch_metrics net) rest = map Inr ms'"
    by simp_all
  then show ?case
    by (simp add: ms batch_metrics_mask_sum Cons.IH)
qed

lemma eval_on_all:
  assumes "map (batch_metrics net) batches = map Inr ms" and "batches \<noteq> []"
  shows "eval_on net batches
       = (if sum_list (map (\<lambda>m. snd (snd m)) ms) = 0 then Inl ZeroDivisionError
          else Inr \<lparr>loss = sum_list (map fst ms) / real (length batches),
                    acc = 100 - 100 * real (sum_list (map (\<lambda>m. fst (snd m)) ms))
                                    / real (sum_list (map (\<lambda>m. snd (snd m)) ms))\<rparr>)"
proof -
  have len: "length ms = length batches"
    using assms(1) by (metis length_map)
  with assms(2) have ne: "map fst ms \<noteq> []" by auto
  show ?thesis
    using assms(2) len
    by (simp add: eval_on_def eval_loop_all [OF assms(1)] eval_result_def
        foldl_add_loss_PyInt [OF ne])
qed

lemma eval_on_empty: "eval_on net [] = Inl AttributeError"
  by (simp add: eval_on_def eval_result_def)

lemma mask_sum_EOS:
  assumes "list_ex (\<lambda>row. EOS \<in> set row) src"
  shows "0 < mask_sum src"
proof -
  from assms obtain row where "row \<in> set src" and "EOS \<in> set row"
    by (auto simp add: list_ex_iff)
  then have "EOS \<in> set (concat src)" by auto
  moreover have "EOS \<noteq> EMPTY" by (simp add: EOS_def EMPTY_def)
  ultimately have "filter (\<lambda>s. s \<noteq> EMPTY) (concat src) \<noteq> []"
    by (auto simp add: filter_empty_conv simp del: set_concat)
  then show ?thesis by (simp add: mask_sum_def)
qed

lemma eval_on_by_mask_sum:
  assumes "batches \<noteq> [] \<and> map (batch_metrics net) batches = map Inr ms"
  shows "eval_on net batches
       = (if sum_list (map mask_sum batches) = 0 then Inl ZeroDivisionError
          else Inr \<lparr>loss = sum_list (map fst ms) / real (length batches),
                    acc = 100 - 100 * real (sum_list (map (\<lambda>m. fst (snd m)) ms))
                                    / real (sum_list (map mask_sum batches))\<rparr>)"
proof -
  from assms have ne: "batches \<noteq> []" and ms: "map (batch_metrics net) batches = map Inr ms"
    by simp_all
  have "map (\<lambda>m. snd (snd m)) ms = map mask_sum batches"
    using ms by (rule metrics_mask_sums)
  then show ?thesis
    by (simp only: eval_on_all [OF ms ne])
qed

text \<open>
  A network over two channels whose scores are all zero: every prediction is the symbol 0
  and the loss at every position that counts is \<open>ln 2\<close>.
\<close>

lemma zero_scores_metrics:
  "batch_metrics (\<lambda>src. Inr (map (\<lambda>row. [map (\<lambda>s. 0) row, map (\<lambda>s. 0) row]) src)) [[1]]
   = Inr (ln 2, 1, 1)"
  "batch_metrics (\<lambda>src. Inr (map (\<lambda>row. [map (\<lambda>s. 0) row, map (\<lambda>s. 0) row]) src)) [[0, 0, 0]]
   = Inr (ln 2, 0, 3)"
  "batch_metrics (\<lambda>src. Inr (map (\<lambda>row. [map (\<lambda>s. 0) row, map (\<lambda>s. 0) row]) src)) [[7, 7, 7, 7]]
   = Inr (0, 0, 0)"
proof -
  have t1: "map transpose [[[0], [0]]] = [[[0, 0 :: real]]]"
    and t3: "map transpose [[[0, 0, 0], [0, 0, 0]]] = [[[0, 0], [0, 0], [0, 0 :: real]]]"
    and t4: "map transpose [[[0, 0, 0, 0], [0, 0, 0, 0]]] = [[[0, 0], [0, 0], [0, 0], [0, 0 :: real]]]"
    by code_simp+
  have p1: "max_dim1 [[[0], [0]]] = [[0]]"
    and p3: "max_dim1 [[[0, 0, 0], [0, 0, 0]]] = [[0, 0, 0]]"
    and p4: "max_dim1 [[[0, 0, 0, 0], [0, 0, 0, 0]]] = [[0, 0, 0, 0]]"
    by code_simp+
  have l1: "batch_loss [[[0], [0]]] [[1]] = Inr (ln 2)"
    by (simp add: batch_loss_def t1 criterion_def CrossEntropyLoss_def EMPTY_def)
  have l3: "batch_loss [[[0, 0, 0], [0, 0, 0]]] [[0, 0, 0]] = Inr (ln 2)"
    by (simp add: batch_loss_def t3 criterion_def CrossEntropyLoss_def EMPTY_def)
  have l4: "batch_loss [[[0, 0, 0, 0], [0, 0, 0, 0]]] [[7, 7, 7, 7]] = Inr 0"
    by (simp add: batch_loss_def t4 criterion_def CrossEntropyLoss_def EMPTY_def)
  have c1: "wrong [[0]] [[1]] = 1" "mask_sum [[1]] = 1"
    and c3: "wrong [[0, 0, 0]] [[0, 0, 0]] = 0" "mask_sum [[0, 0, 0]] = 3"
    and c4: "wrong [[0, 0, 0, 0]] [[7, 7, 7, 7]] = 0" "mask_sum [[7, 7, 7, 7]] = 0"
    by (simp_all add: wrong_def masked_def mask_sum_def EMPTY_def)
  show "batch_metrics (\<lambda>src. Inr (map (\<lambda>row. [map (\<lambda>s. 0) row, map (\<lambda>s. 0) row]) src)) [[1]]
   = Inr (ln 2, 1, 1)"
    by (simp add: batch_metrics_def l1 p1 c1)
  show "batch_metrics (\<lambda>src. Inr (map (\<lambda>row. [map (\<lambda>s. 0) row, map (\<lambda>s. 0) row]) src)) [[0, 0, 0]]
   = Inr (ln 2, 0, 3)"
    by (simp add: batch_metrics_def l3 p3 c3)
  show "batch_metrics (\<lambda>src. Inr (map (\<lambda>row. [map (\<lambda>s. 0) row, map (\<lambda>s. 0) row]) src)) [[7, 7, 7, 7]]
   = Inr (0, 0, 0)"
    by (simp add: batch_metrics_def l4 p4 c4)
qed

text \<open>The losses and the counts of the batches of a stream, from the scores of the network.\<close>

lemma metrics_of_stream:
  assumes "map net batches = map Inr tgts"
    and "list_all (\<lambda>(tgt, src). fits tgt src) (zip tgts batches)"
  shows "map (batch_metrics net) batches
       = map Inr (map (\<lambda>(tgt, src). (spec_batch_loss tgt src, spec_batch_errors tgt src,
                                        spec_batch_positions src)) (zip tgts batches))"
proof -
  have "length (map net batches) = length (map Inr tgts :: (error + scores) list)"
    by (simp only: assms(1))
  then have "length tgts = length batches" by simp
  then show ?thesis
    using assms
  proof (induction tgts batches rule: list_induct2)
    case Nil
    then show ?case by simp
  next
    case (Cons tgt tgts src batches)
    from Cons.prems have "net src = Inr tgt" and "fits tgt src"
      and "map net batches = map Inr tgts"
      and "list_all (\<lambda>(tgt, src). fits tgt src) (zip tgts batches)"
      by simp_all
    then show ?case
      by (simp add: batch_metrics_spec Cons.IH)
  qed
qed

lemma sums_of_stream:
  assumes "length tgts = length batches"
  shows "map fst (map (\<lambda>(tgt, src). (spec_batch_loss tgt src, spec_batch_errors tgt src,
                                      spec_batch_positions src)) (zip tgts batches))
         = map (\<lambda>(tgt, src). spec_batch_loss tgt src) (zip tgts batches)"
    and "map (\<lambda>m. fst (snd m)) (map (\<lambda>(tgt, src). (spec_batch_loss tgt src,
             spec_batch_errors tgt src, spec_batch_positions src)) (zip tgts batches))
         = map (\<lambda>(tgt, src). spec_batch_errors tgt src) (zip tgts batches)"
    and "map (\<lambda>m. snd (snd m)) (map (\<lambda>(tgt, src). (spec_batch_loss tgt src,
             spec_batch_errors tgt src, spec_batch_positions src)) (zip tgts batches))
         = map spec_batch_positions batches"
proof -
  show "map fst (map (\<lambda>(tgt, src). (spec_batch_loss tgt src, spec_batch_errors tgt src,
                                      spec_batch_positions src)) (zip tgts batches))
         = map (\<lambda>(tgt, src). spec_batch_loss tgt src) (zip tgts batches)"
    by (simp add: comp_def case_prod_beta)
  show "map (\<lambda>m. fst (snd m)) (map (\<lambda>(tgt, src). (spec_batch_loss tgt src,
             spec_batch_errors tgt src, spec_batch_positions src)) (zip tgts batches))
         = map (\<lambda>(tgt, src). spec_batch_errors tgt src) (zip tgts batches)"
    by (simp add: comp_def case_prod_beta)
  have "map (\<lambda>m. snd (snd m)) (map (\<lambda>(tgt, src). (spec_batch_loss tgt src,
             spec_batch_errors tgt src, spec_batch_positions src)) (zip tgts batches))
      = map spec_batch_positions (map snd (zip tgts batches))"
    by (simp add: comp_def case_prod_beta)
  then show "map (\<lambda>m. snd (snd m)) (map (\<lambda>(tgt, src). (spec_batch_loss tgt src,
             spec_batch_errors tgt src, spec_batch_positions src)) (zip tgts batches))
         = map spec_batch_positions batches"
    by (simp only: map_snd_zip [OF assms])
qed

text \<open>
  Claim C7. Let the network give on every batch of a stream that is not empty scores that
  fit it, and let some position of the stream have a target that is not PAD. The loop of
  \<^verbatim>\<open>eval_on\<close> ends with the sum over the batches of their errors, the number of positions of
  all batches whose target is not PAD, the sum of the losses of the batches and the number
  of batches; \<^verbatim>\<open>eval_on\<close> returns the mean over the batches of their losses (each the mean
  of the cross-entropy over the positions of the batch whose target is not PAD), and as
  accuracy 100 minus 100 times the errors of all batches over the number of positions of
  all batches whose target is not PAD: the counts are added up over the batches before the
  division, the rates of the batches are not averaged.
\<close>

theorem eval_on_aggregates:
  assumes "map net batches = map Inr tgts"
    and "list_all (\<lambda>(tgt, src). fits tgt src) (zip tgts batches)"
    and "batches \<noteq> []"
    and "0 < sum_list (map spec_batch_positions batches)"
  shows "eval_loop net \<lparr>errs = 0, samples = 0, total_loss = PyInt 0, batch_cnt = 0\<rparr> batches
       = Inr \<lparr>errs = sum_list (map (\<lambda>(tgt, src). spec_batch_errors tgt src) (zip tgts batches)),
              samples = sum_list (map spec_batch_positions batches),
              total_loss =
                Variable (sum_list (map (\<lambda>(tgt, src). spec_batch_loss tgt src) (zip tgts batches))),
              batch_cnt = length batches\<rparr>
     \<and> eval_on net batches
       = Inr \<lparr>loss = sum_list (map (\<lambda>(tgt, src). spec_batch_loss tgt src) (zip tgts batches))
                     / real (length batches),
              acc = 100 - 100 * real (sum_list (map (\<lambda>(tgt, src). spec_batch_errors tgt src)
                                                  (zip tgts batches)))
                              / real (sum_list (map spec_batch_positions batches))\<rparr>"
proof -
  let ?ms = "map (\<lambda>(tgt, src). (spec_batch_loss tgt src, spec_batch_errors tgt src,
                                 spec_batch_positions src)) (zip tgts batches)"
  have ms: "map (batch_metrics net) batches = map Inr ?ms"
    using assms(1,2) by (rule metrics_of_stream)
  have "length (map net batches) = length (map Inr tgts :: (error + scores) list)"
    by (simp only: assms(1))
  then have len: "length tgts = length batches" by simp
  note sums = sums_of_stream [OF len]
  from assms(4) have pos: "sum_list (map spec_batch_positions batches) \<noteq> 0" by linarith
  have ne: "map (\<lambda>(tgt, src). spec_batch_loss tgt src) (zip tgts batches) \<noteq> []"
    using assms(3) len by (cases tgts; cases batches) simp_all
  have loop: "eval_loop net \<lparr>errs = 0, samples = 0, total_loss = PyInt 0, batch_cnt = 0\<rparr> batches
       = Inr \<lparr>errs = sum_list (map (\<lambda>(tgt, src). spec_batch_errors tgt src) (zip tgts batches)),
              samples = sum_list (map spec_batch_positions batches),
              total_loss =
                Variable (sum_list (map (\<lambda>(tgt, src). spec_batch_loss tgt src) (zip tgts batches))),
              batch_cnt = length batches\<rparr>"
    unfolding eval_loop_all [OF ms] sums
    by (simp add: foldl_add_loss_PyInt [OF ne] len)
  have "eval_on net batches
       = Inr \<lparr>loss = sum_list (map (\<lambda>(tgt, src). spec_batch_loss tgt src) (zip tgts batches))
                     / real (length batches),
              acc = 100 - 100 * real (sum_list (map (\<lambda>(tgt, src). spec_batch_errors tgt src)
                                                  (zip tgts batches)))
                              / real (sum_list (map spec_batch_positions batches))\<rparr>"
    unfolding eval_on_all [OF ms assms(3)] sums
    by (simp only: pos if_False)
  with loop show ?thesis by (rule conjI)
qed

text \<open>
  Two batches of rows of length 4 and a network over two classes whose scores are all zero:
  it predicts the byte 0 everywhere and every position that counts has the loss \<open>ln 2\<close>.
  The first batch has the row \<open>1, EOS, PAD, PAD\<close>: one error in two positions. The second
  has two rows and six positions outside the padding, all predicted rightly. One error in
  eight positions gives the accuracy 87.5, where the mean of the two rates, 50 and 0, would
  give 75.
\<close>

lemma witness_stream_fits:
  "fits [[[0, 0, 0, 0], [0, 0, 0, 0]]] [[1, 0, 7, 7]]"
  "fits [[[0, 0, 0, 0], [0, 0, 0, 0]], [[0, 0, 0, 0], [0, 0, 0, 0]]] [[0, 0, 0, 0], [0, 0, 7, 7]]"
  by code_simp+

lemma witness_stream_scores:
  "concat (map transpose [[[0, 0, 0, 0], [0, 0, 0, 0 :: real]]]) = [[0, 0], [0, 0], [0, 0], [0, 0]]"
  "concat (map transpose [[[0, 0, 0, 0], [0, 0, 0, 0]], [[0, 0, 0, 0], [0, 0, 0, 0 :: real]]])
   = [[0, 0], [0, 0], [0, 0], [0, 0], [0, 0], [0, 0], [0, 0], [0, 0]]"
  "spec_non_pad [1, 0, 7, 7] = [0, 1]"
  "spec_non_pad [0, 0, 0, 0, 0, 0, 7, 7] = [0, 1, 2, 3, 4, 5]"
  by code_simp+

lemma witness_stream_metrics:
  "spec_batch_loss [[[0, 0, 0, 0], [0, 0, 0, 0]]] [[1, 0, 7, 7]] = ln 2"
  "spec_batch_errors [[[0, 0, 0, 0], [0, 0, 0, 0]]] [[1, 0, 7, 7]] = 1"
  "spec_batch_positions [[1, 0, 7, 7]] = 2"
  "spec_batch_loss [[[0, 0, 0, 0], [0, 0, 0, 0]], [[0, 0, 0, 0], [0, 0, 0, 0]]]
     [[0, 0, 0, 0], [0, 0, 7, 7]] = ln 2"
  "spec_batch_errors [[[0, 0, 0, 0], [0, 0, 0, 0]], [[0, 0, 0, 0], [0, 0, 0, 0]]]
     [[0, 0, 0, 0], [0, 0, 7, 7]] = 0"
  "spec_batch_positions [[0, 0, 0, 0], [0, 0, 7, 7]] = 6"
  by (simp_all add: spec_batch_loss_def spec_batch_errors_def spec_batch_positions_def
      spec_loss_def spec_errors_def spec_cross_entropy_def witness_stream_scores argmax_def)

theorem eval_on_aggregates_witness:
  "eval_on (\<lambda>src. Inr (map (\<lambda>row. [map (\<lambda>s. 0) row, map (\<lambda>s. 0) row]) src))
     [[[1, 0, 7, 7]], [[0, 0, 0, 0], [0, 0, 7, 7]]]
   = Inr \<lparr>loss = ln 2, acc = 175 / 2\<rparr>
   \<and> batch_metrics (\<lambda>src. Inr (map (\<lambda>row. [map (\<lambda>s. 0) row, map (\<lambda>s. 0) row]) src))
       [[1, 0, 7, 7]] = Inr (ln 2, 1, 2)
   \<and> batch_metrics (\<lambda>src. Inr (map (\<lambda>row. [map (\<lambda>s. 0) row, map (\<lambda>s. 0) row]) src))
       [[0, 0, 0, 0], [0, 0, 7, 7]] = Inr (ln 2, 0, 6)"
proof -
  let ?net = "\<lambda>src :: batch. (Inr (map (\<lambda>row. [map (\<lambda>s. 0) row, map (\<lambda>s. 0) row]) src) :: error + scores)"
  let ?a = "[[[0, 0, 0, 0], [0, 0, 0, 0]]] :: scores"
  let ?b = "[[[0, 0, 0, 0], [0, 0, 0, 0]], [[0, 0, 0, 0], [0, 0, 0, 0]]] :: scores"
  let ?batches = "[[[1, 0, 7, 7]], [[0, 0, 0, 0], [0, 0, 7, 7]]] :: batch list"
  have nets: "map ?net ?batches = map Inr [?a, ?b]"
    by simp
  have fit: "list_all (\<lambda>(tgt, src). fits tgt src) (zip [?a, ?b] ?batches)"
    by (simp add: witness_stream_fits)
  have ne: "?batches \<noteq> []"
    by simp
  have pos: "0 < sum_list (map spec_batch_positions ?batches)"
    by (simp add: witness_stream_metrics)
  from eval_on_aggregates [OF nets fit ne pos]
  have "eval_on ?net ?batches = Inr \<lparr>loss = ln 2, acc = 175 / 2\<rparr>"
    by (simp add: witness_stream_metrics)
  moreover have "batch_metrics ?net [[1, 0, 7, 7]] = Inr (ln 2, 1, 2)"
    using batch_metrics_spec [of ?net "[[1, 0, 7, 7]]" ?a]
    by (simp add: witness_stream_fits witness_stream_metrics)
  moreover have "batch_metrics ?net [[0, 0, 0, 0], [0, 0, 7, 7]] = Inr (ln 2, 0, 6)"
    using batch_metrics_spec [of ?net "[[0, 0, 0, 0], [0, 0, 7, 7]]" ?b]
    by (simp add: witness_stream_fits witness_stream_metrics)
  ultimately show ?thesis by simp
qed

text \<open>
  Claim C10, as amended. \<^verbatim>\<open>eval_on\<close> is only defined for a stream of batches that is not
  empty. On the empty stream the loop body never runs, \<^verbatim>\<open>batch_cnt\<close> and \<^verbatim>\<open>samples\<close> stay 0
  and \<^verbatim>\<open>total_loss\<close> stays the integer 0, and the computation of the result raises
  AttributeError on \<^verbatim>\<open>total_loss.data\<close>, before any division. On a stream that is not empty
  and whose batches all evaluate, the division by \<^verbatim>\<open>batch_cnt\<close> is defined, and the division
  by \<^verbatim>\<open>samples\<close> is defined when some target position is not PAD, which holds for a batch
  with a row that holds EOS, as every row of the loader does; when every target position
  is PAD it raises ZeroDivisionError.
\<close>

theorem eval_on_defined:
  "eval_loop net \<lparr>errs = 0, samples = 0, total_loss = PyInt 0, batch_cnt = 0\<rparr> []
     = Inr \<lparr>errs = 0, samples = 0, total_loss = PyInt 0, batch_cnt = 0\<rparr>
   \<and> eval_on net [] = Inl AttributeError
   \<and> (batches \<noteq> [] \<and> map (batch_metrics net) batches = map Inr ms \<longrightarrow>
        (sum_list (map mask_sum batches) = 0 \<longrightarrow> eval_on net batches = Inl ZeroDivisionError)
      \<and> (0 < sum_list (map mask_sum batches) \<longrightarrow> (\<exists>m. eval_on net batches = Inr m)))
   \<and> (list_ex (\<lambda>row. EOS \<in> set row) src \<longrightarrow> 0 < mask_sum src)
   \<and> 0 < mask_sum (line_bytes line # rows)"
proof (intro conjI impI)
  show "eval_loop net \<lparr>errs = 0, samples = 0, total_loss = PyInt 0, batch_cnt = 0\<rparr> []
     = Inr \<lparr>errs = 0, samples = 0, total_loss = PyInt 0, batch_cnt = 0\<rparr>"
    by simp
next
  show "eval_on net [] = Inl AttributeError"
    by (rule eval_on_empty)
next
  assume h: "batches \<noteq> [] \<and> map (batch_metrics net) batches = map Inr ms"
    and z: "sum_list (map mask_sum batches) = 0"
  show "eval_on net batches = Inl ZeroDivisionError"
    by (simp add: eval_on_by_mask_sum [OF h] z)
next
  assume h: "batches \<noteq> [] \<and> map (batch_metrics net) batches = map Inr ms"
    and p: "0 < sum_list (map mask_sum batches)"
  from p have "sum_list (map mask_sum batches) \<noteq> 0" by linarith
  then show "\<exists>m. eval_on net batches = Inr m"
    by (simp only: eval_on_by_mask_sum [OF h] if_False) blast
next
  assume "list_ex (\<lambda>row. EOS \<in> set row) src"
  then show "0 < mask_sum src" by (rule mask_sum_EOS)
next
  have "EOS \<in> set (line_bytes line)"
    by (simp add: line_bytes_def pad_bytes_def Let_def)
  then have "list_ex (\<lambda>row. EOS \<in> set row) (line_bytes line # rows)"
    by simp
  then show "0 < mask_sum (line_bytes line # rows)" by (rule mask_sum_EOS)
qed

theorem eval_on_defined_witness:
  "eval_on (\<lambda>src. Inr (map (\<lambda>row. [map (\<lambda>s. 0) row, map (\<lambda>s. 0) row]) src)) [[[7, 7, 7, 7]]]
     = Inl ZeroDivisionError
   \<and> (\<exists>m. eval_on (\<lambda>src. Inr (map (\<lambda>row. [map (\<lambda>s. 0) row, map (\<lambda>s. 0) row]) src)) [[[0, 0, 0]]]
          = Inr m)
   \<and> 0 < mask_sum [[104, 105, 0, 7]]"
proof -
  let ?net = "\<lambda>src :: batch. (Inr (map (\<lambda>row. [map (\<lambda>s. 0) row, map (\<lambda>s. 0) row]) src) :: error + scores)"
  have pad: "[[[7, 7, 7, 7]]] \<noteq> ([] :: batch list)
      \<and> map (batch_metrics ?net) [[[7, 7, 7, 7]]] = map Inr [(0, 0, 0)]"
    by (simp add: zero_scores_metrics)
  have "sum_list (map mask_sum [[[7, 7, 7, 7]]]) = 0"
    by (simp add: mask_sum_def EMPTY_def)
  with pad have "eval_on ?net [[[7, 7, 7, 7]]] = Inl ZeroDivisionError"
    using eval_on_defined [of ?net "[[[7, 7, 7, 7]]]" "[(0, 0, 0)]"] by blast
  moreover have ok: "[[[0, 0, 0]]] \<noteq> ([] :: batch list)
      \<and> map (batch_metrics ?net) [[[0, 0, 0]]] = map Inr [(ln 2, 0, 3)]"
    by (simp add: zero_scores_metrics)
  have "0 < sum_list (map mask_sum [[[0, 0, 0]]])"
    by (simp add: mask_sum_def EMPTY_def)
  with ok have "\<exists>m. eval_on ?net [[[0, 0, 0]]] = Inr m"
    using eval_on_defined [of ?net "[[[0, 0, 0]]]" "[(ln 2, 0, 3)]"] by blast
  moreover have "list_ex (\<lambda>row. EOS \<in> set row) [[104, 105, 0, 7]]"
    by (simp add: EOS_def)
  then have "0 < mask_sum [[104, 105, 0, 7]]"
    using eval_on_defined [of ?net "[]" "[]" "[[104, 105, 0, 7]]" "[]" "[]"] by blast
  ultimately show ?thesis by blast
qed

text \<open>
  The claim as it is written fails twice. On the empty stream no division is reached: the
  exception is the AttributeError. And a stream that is not empty does not make the
  divisions defined: on a batch whose targets are all PAD the accuracy divides by zero.
\<close>

theorem eval_on_counterexample:
  "eval_on (\<lambda>src. Inr (map (\<lambda>row. [map (\<lambda>s. 0) row, map (\<lambda>s. 0) row]) src)) []
     = Inl AttributeError
   \<and> eval_on (\<lambda>src. Inr (map (\<lambda>row. [map (\<lambda>s. 0) row, map (\<lambda>s. 0) row]) src)) [[[7, 7, 7, 7]]]
     = Inl ZeroDivisionError"
  by (simp add: eval_on_def eval_result_def zero_scores_metrics add_loss_def)

section \<open>The descriptor of a saved model\<close>

lemma getitem_empty: "getitem k [] = ('''', [(k, '''')])"
  by (simp add: getitem_def)

text \<open>
  Claim C3. The claim says that loading succeeds on a descriptor with exactly the keys
  \<^verbatim>\<open>model_class\<close> and \<^verbatim>\<open>model_kwargs\<close> that records the class \<^verbatim>\<open>ByteCNN\<close>. The function never
  returns a model. It deletes \<^verbatim>\<open>p['model_class']\<close>, checks that \<open>p\<close> is empty, and then
  asserts \<^verbatim>\<open>p['model_class'] == 'ByteCNN'\<close>: the dictionary gives the empty string for the
  key that is gone, so the assertion fails on every descriptor that reaches it. The module
  also never imports \<^verbatim>\<open>os\<close>, whose name the first statement reads. On the descriptor of the
  claim the result is AssertionError with \<^verbatim>\<open>os\<close> bound and NameError without; a field that
  is left over raises ValueError, as the claim says.
\<close>

theorem load_model_never_returns:
  "(\<exists>e. load_model os_bound eval_class eval_kwargs instantiate load_state_dict model_info = Inl e)
   \<and> load_model True (\<lambda>s. if s = ''ByteCNN'' then Inr s else Inl NameError) Inr (\<lambda>c k. Inr (c, k)) Inr
        [''model_class=ByteCNN'', ''model_kwargs=n=8,emsize=256'']
      = Inl AssertionError
   \<and> load_model False (\<lambda>s. if s = ''ByteCNN'' then Inr s else Inl NameError) Inr (\<lambda>c k. Inr (c, k)) Inr
        [''model_class=ByteCNN'', ''model_kwargs=n=8,emsize=256'']
      = Inl NameError
   \<and> load_model True (\<lambda>s. if s = ''ByteCNN'' then Inr s else Inl NameError) Inr (\<lambda>c k. Inr (c, k)) Inr
        [''model_class=ByteCNN'', ''model_kwargs=n=8,emsize=256'', ''extra=1'']
      = Inl ValueError"
proof (intro conjI)
  show "\<exists>e. load_model os_bound eval_class eval_kwargs instantiate load_state_dict model_info = Inl e"
    by (auto simp add: load_model_def and_then_def getitem_empty split: sum.splits prod.splits)
  show "load_model True (\<lambda>s. if s = ''ByteCNN'' then Inr s else Inl NameError) Inr (\<lambda>c k. Inr (c, k)) Inr
        [''model_class=ByteCNN'', ''model_kwargs=n=8,emsize=256'']
      = Inl AssertionError"
    by code_simp
  show "load_model False (\<lambda>s. if s = ''ByteCNN'' then Inr s else Inl NameError) Inr (\<lambda>c k. Inr (c, k)) Inr
        [''model_class=ByteCNN'', ''model_kwargs=n=8,emsize=256'']
      = Inl NameError"
    by (simp add: load_model_def)
  show "load_model True (\<lambda>s. if s = ''ByteCNN'' then Inr s else Inl NameError) Inr (\<lambda>c k. Inr (c, k)) Inr
        [''model_class=ByteCNN'', ''model_kwargs=n=8,emsize=256'', ''extra=1'']
      = Inl ValueError"
    by code_simp
qed

end
